theory Spec2Isabelle
  imports Main
begin

section \<open>The clicker game server\<close>

text \<open>
  The repository holds one program, a WebSocket game server, in two variants:
  \<^verbatim>\<open>src/server/index.js\<close> and \<^verbatim>\<open>src/unnamed/part_000\<close>. Both are embedded
  here; where they differ the definitions take the variant as a parameter.

  Modelling decisions:
  \<^item> A JavaScript string is a \<open>string\<close>; each \<open>char\<close> stands for one UTF-16 code
    unit in the range U+0000..U+00FF, so \<open>length\<close> counts what \<^verbatim>\<open>slice\<close> counts.
  \<^item> A number is the integer it stands for, an \<open>int\<close>. JavaScript computes in
    doubles and SQLite in 64-bit integers and doubles; both roundings are part
    of the model (subsection Numbers). Only the overflow of a double to infinity,
    beyond \<open>2 ^ 1024\<close>, is left out.
  \<^item> The tables \<^verbatim>\<open>players\<close>, \<^verbatim>\<open>shop_items\<close> and \<^verbatim>\<open>bans\<close> are maps keyed by the
    column every statement of the source selects on, compared byte for byte;
    \<^verbatim>\<open>chat\<close> is the list of its rows in insertion order.
  \<^item> The \<^verbatim>\<open>clients\<close> Map is an association list in insertion order, as a
    JavaScript Map iterates.
  \<^item> The socket library's part (the set \<^verbatim>\<open>wss.clients\<close>, \<^verbatim>\<open>readyState\<close>, the
    effect of \<^verbatim>\<open>close()\<close>) is state of the model; every handler returns the
    list of messages it hands to \<^verbatim>\<open>send\<close>, in order.
  \<^item> An uncaught \<^verbatim>\<open>TypeError\<close> is the result \<open>Inl TypeError\<close>.
\<close>

subsection \<open>JavaScript values and string operations\<close>

datatype variant = IndexJs | Part000

text \<open>
  A field of a parsed JSON message. \<open>JNum r\<close> is a number whose rendering by
  \<^verbatim>\<open>String\<close> is \<open>r\<close>; \<open>JObject r\<close> is an array or object whose rendering by
  \<^verbatim>\<open>String\<close> is \<open>r\<close> (an object that shadows \<^verbatim>\<open>toString\<close> so that the
  conversion throws is left out). \<open>JUndefined\<close> is an absent field.
\<close>

datatype jsval =
    JUndefined
  | JNull
  | JBool bool
  | JNum string
  | JStr string
  | JObject string

fun js_String :: "jsval \<Rightarrow> string" where
  "js_String JUndefined = ''undefined''"
| "js_String JNull = ''null''"
| "js_String (JBool b) = (if b then ''true'' else ''false'')"
| "js_String (JNum r) = r"
| "js_String (JStr s) = s"
| "js_String (JObject r) = r"

text \<open>Truthiness; a number parsed from JSON is falsy exactly when it renders as 0.\<close>

fun truthy :: "jsval \<Rightarrow> bool" where
  "truthy JUndefined = False"
| "truthy JNull = False"
| "truthy (JBool b) = b"
| "truthy (JNum r) = (r \<noteq> ''0'')"
| "truthy (JStr s) = (s \<noteq> [])"
| "truthy (JObject r) = True"

text \<open>\<^verbatim>\<open>x || ''\<close>\<close>

definition or_empty :: "jsval \<Rightarrow> jsval" where
  "or_empty x = (if truthy x then x else JStr [])"

text \<open>The white space of \<^verbatim>\<open>trim\<close> and of the regular expression \<^verbatim>\<open>\s\<close>, below U+0100.\<close>

definition is_space :: "char \<Rightarrow> bool" where
  "is_space c = (c \<in> set [CHR 0x09, CHR 0x0A, CHR 0x0B, CHR 0x0C, CHR 0x0D, CHR 0x20, CHR 0xA0])"

definition trim :: "string \<Rightarrow> string" where
  "trim s = rev (dropWhile is_space (rev (dropWhile is_space s)))"

text \<open>\<^verbatim>\<open>s.slice(0, n)\<close>\<close>

definition slice0 :: "nat \<Rightarrow> string \<Rightarrow> string" where
  "slice0 n s = take n s"

definition lower_char :: "char \<Rightarrow> char" where
  "lower_char c =
     (let n = (of_char c :: nat)
      in if (65 \<le> n \<and> n \<le> 90) \<or> (192 \<le> n \<and> n \<le> 222 \<and> n \<noteq> 215)
         then char_of (n + 32) else c)"

definition toLowerCase :: "string \<Rightarrow> string" where
  "toLowerCase s = map lower_char s"

definition startsWith :: "string \<Rightarrow> string \<Rightarrow> bool" where
  "startsWith s p = (take (length p) s = p)"

text \<open>
  \<^verbatim>\<open>s.split(/\s+/)\<close>: the pieces between the maximal runs of white space; a
  run at either end leaves an empty piece there.
\<close>

function split_ws :: "string \<Rightarrow> string list" where
  "split_ws s =
     (let rest = dropWhile (\<lambda>c. \<not> is_space c) s
      in if rest = [] then [takeWhile (\<lambda>c. \<not> is_space c) s]
         else takeWhile (\<lambda>c. \<not> is_space c) s # split_ws (dropWhile is_space rest))"
  by pat_completeness auto
termination
proof (relation "measure length")
  show "wf (measure length)" by simp
next
  fix s :: string and rest :: string
  assume r: "rest = dropWhile (\<lambda>c. \<not> is_space c) s" and ne: "rest \<noteq> []"
  from ne obtain c cs where rc: "rest = c # cs" by (cases rest) auto
  with r have "is_space c"
    by (metis hd_dropWhile list.sel(1) ne)
  then have "length (dropWhile is_space rest) \<le> length cs"
    using rc by (simp add: length_dropWhile_le)
  moreover have "length rest \<le> length s"
    using r by (simp add: length_dropWhile_le)
  ultimately show "(dropWhile is_space rest, s) \<in> measure length"
    using rc by simp
qed

declare split_ws.simps [simp del]

text \<open>\<^verbatim>\<open>parts[i]\<close>, \<open>None\<close> for \<^verbatim>\<open>undefined\<close>.\<close>

fun index :: "'a list \<Rightarrow> nat \<Rightarrow> 'a option" where
  "index [] i = None"
| "index (x # xs) 0 = Some x"
| "index (x # xs) (Suc i) = index xs i"

subsection \<open>Numbers\<close>

text \<open>
  Every counter of the program holds a whole number, and every operation the
  program applies to counters (addition, subtraction, reading and writing a
  row) maps whole numbers of a double's range to whole numbers. A double holds
  a whole number exactly when its magnitude is below \<open>2 ^ 53\<close>; a larger one is
  rounded to 53 significant bits, a tie going to the even neighbour.
\<close>

definition safe :: "int \<Rightarrow> bool" where
  "safe x = (\<bar>x\<bar> < 9007199254740992)"

text \<open>The number of low bits a double has to drop to hold the magnitude \<open>n\<close>.\<close>

function drop_bits :: "int \<Rightarrow> nat" where
  "drop_bits n = (if n < 9007199254740992 then 0 else Suc (drop_bits (n div 2)))"
  by pat_completeness auto
termination
  by (relation "measure nat") auto

declare drop_bits.simps [simp del]

definition round_mag :: "int \<Rightarrow> int" where
  "round_mag n =
     (let e = drop_bits n; q = n div 2 ^ e; r = n mod 2 ^ e
      in if 2 ^ e < 2 * r \<or> (2 * r = 2 ^ e \<and> odd q) then (q + 1) * 2 ^ e else q * 2 ^ e)"

text \<open>The double nearest to a whole number.\<close>

definition to_double :: "int \<Rightarrow> int" where
  "to_double x = (if x < 0 then - round_mag (- x) else round_mag x)"

text \<open>JavaScript's \<^verbatim>\<open>a + b\<close> and \<^verbatim>\<open>a - b\<close> on two numbers.\<close>

definition js_add :: "int \<Rightarrow> int \<Rightarrow> int" where
  "js_add a b = to_double (a + b)"

definition js_sub :: "int \<Rightarrow> int \<Rightarrow> int" where
  "js_sub a b = to_double (a - b)"

text \<open>
  The database driver (\<^verbatim>\<open>better-sqlite3\<close> with its default settings) hands
  every numeric column to JavaScript as a double, and binds every JavaScript
  number to a statement as a REAL. \<open>column x\<close> is what JavaScript sees of the
  stored value \<open>x\<close>. A row written from JavaScript holds the bound doubles as
  they are.
\<close>

definition column :: "int \<Rightarrow> int" where
  "column x = to_double x"

text \<open>
  SQL \<^verbatim>\<open>col + @val\<close> with \<^verbatim>\<open>@val\<close> bound from a JavaScript number: one operand
  is a REAL, so SQLite converts the column to a double and adds in doubles.
\<close>

definition sql_add_real :: "int \<Rightarrow> int \<Rightarrow> int" where
  "sql_add_real x val = to_double (to_double x + val)"

text \<open>
  Modelled from the spec: \<^verbatim>\<open>schema.sql\<close> is missing; the specification makes the
  counters integers, so their columns are taken to have INTEGER affinity. A
  whole number is then stored as a 64-bit INTEGER when it fits and as a REAL
  otherwise. SQL \<^verbatim>\<open>col + 1\<close> adds 64-bit integers, and falls back to doubles
  when the column holds a REAL or the sum overflows.
\<close>

definition int64 :: "int \<Rightarrow> bool" where
  "int64 x = (- 9223372036854775808 \<le> x \<and> x < 9223372036854775808)"

definition sql_add_int :: "int \<Rightarrow> int \<Rightarrow> int" where
  "sql_add_int x k =
     (if int64 x \<and> int64 (x + k) then x + k else to_double (to_double x + to_double k))"

subsection \<open>Tables and connection state\<close>

record player =
  coins :: int
  tap_value :: int
  auto_per_sec :: int
  taps :: int
  icon :: "string option"

record shop_item =
  item_id :: string
  item_name :: string
  price :: int
  item_type :: string
  item_value :: int

record chat_row =
  chat_nickname :: string
  chat_icon :: "string option"
  chat_text :: string
  chat_ts :: int

type_synonym ws = nat

datatype ready_state = OPEN | CLOSING | CLOSED

record state =
  players :: "string \<rightharpoonup> player"
  shop_items :: "string \<rightharpoonup> shop_item"
  bans :: "string \<rightharpoonup> string"
  chat :: "chat_row list"
  clients :: "(ws \<times> string option) list"
  wss_clients :: "ws list"
  readyState :: "ws \<Rightarrow> ready_state"

text \<open>
  The messages the server sends. Of \<^verbatim>\<open>init\<close> only the chat history is kept,
  and \<^verbatim>\<open>ranks\<close> carries no payload: the two query results it holds are read
  by no property below.
\<close>

datatype out_msg =
    Init "chat_row list"
  | SetNameOk string
  | SetNameFail string
  | ErrorMsg string
  | TapMsg string int int int
  | BuyFail string
  | BuyOk string int int int
  | Ranks
  | ChatMsg string "string option" string int
  | System string
  | Banned string

type_synonym send = "ws \<times> out_msg"

datatype error = TypeError

text \<open>The fields of an inbound message that the handlers read.\<close>

record msg =
  m_type :: jsval
  m_nickname :: jsval
  m_adminToken :: jsval
  m_itemId :: jsval
  m_text :: jsval

text \<open>
  What \<^verbatim>\<open>JSON.parse(raw)\<close> gives: it throws, it returns \<^verbatim>\<open>null\<close> (reading
  \<^verbatim>\<open>data.type\<close> then throws), or it returns a value whose fields can be read.
\<close>

datatype raw = Unparsable | JsonNull | JsonObj msg

subsection \<open>Startup\<close>

definition ADMIN_TOKEN :: "variant \<Rightarrow> string option \<Rightarrow> string" where
  "ADMIN_TOKEN v env =
     (case env of
        Some t \<Rightarrow> if t \<noteq> [] then t
                  else (case v of IndexJs \<Rightarrow> ''admin-token-change-me'' | Part000 \<Rightarrow> ''change-admin-token'')
      | None \<Rightarrow> (case v of IndexJs \<Rightarrow> ''admin-token-change-me'' | Part000 \<Rightarrow> ''change-admin-token''))"

text \<open>The item names are Japanese text in the source; they are transliterated here.\<close>

definition SHOP_DEFAULTS :: "shop_item list" where
  "SHOP_DEFAULTS =
     [\<lparr>item_id = ''cheapUp'', item_name = ''tap +1'', price = 10, item_type = ''tap'', item_value = 1\<rparr>,
      \<lparr>item_id = ''midUp'', item_name = ''tap +5'', price = 45, item_type = ''tap'', item_value = 5\<rparr>,
      \<lparr>item_id = ''auto1'', item_name = ''auto +1/s'', price = 30, item_type = ''auto'', item_value = 1\<rparr>,
      \<lparr>item_id = ''auto5'', item_name = ''auto +5/s'', price = 130, item_type = ''auto'', item_value = 5\<rparr>]"

text \<open>\<^verbatim>\<open>INSERT OR IGNORE\<close>: a row whose id is already there is kept.\<close>

definition insertItem :: "shop_item \<Rightarrow> (string \<rightharpoonup> shop_item) \<Rightarrow> (string \<rightharpoonup> shop_item)" where
  "insertItem it tbl = (if tbl (item_id it) = None then tbl(item_id it \<mapsto> it) else tbl)"

definition seed_shop :: "(string \<rightharpoonup> shop_item) \<Rightarrow> (string \<rightharpoonup> shop_item)" where
  "seed_shop tbl = fold insertItem SHOP_DEFAULTS tbl"

subsection \<open>The clients Map and sending\<close>

text \<open>\<^verbatim>\<open>clients.get(ws)\<close>: \<open>None\<close> is \<^verbatim>\<open>undefined\<close>, \<open>Some None\<close> is \<^verbatim>\<open>null\<close>.\<close>

definition clients_get :: "(ws \<times> string option) list \<Rightarrow> ws \<Rightarrow> string option option" where
  "clients_get m c = map_of m c"

fun clients_set :: "(ws \<times> string option) list \<Rightarrow> ws \<Rightarrow> string option \<Rightarrow> (ws \<times> string option) list" where
  "clients_set [] c n = [(c, n)]"
| "clients_set ((c', n') # m) c n =
     (if c' = c then (c, n) # m else (c', n') # clients_set m c n)"

definition clients_delete :: "(ws \<times> string option) list \<Rightarrow> ws \<Rightarrow> (ws \<times> string option) list" where
  "clients_delete m c = filter (\<lambda>e. fst e \<noteq> c) m"

definition sendTo :: "state \<Rightarrow> ws \<Rightarrow> out_msg \<Rightarrow> send list" where
  "sendTo s c obj = (if readyState s c = OPEN then [(c, obj)] else [])"

definition broadcast :: "state \<Rightarrow> out_msg \<Rightarrow> send list" where
  "broadcast s obj = map (\<lambda>c. (c, obj)) (filter (\<lambda>c. readyState s c = OPEN) (wss_clients s))"

definition broadcastPlayersAndRanks :: "state \<Rightarrow> send list" where
  "broadcastPlayersAndRanks s = broadcast s Ranks"

text \<open>\<^verbatim>\<open>c.close()\<close> starts the closing handshake of an open socket.\<close>

definition ws_close :: "state \<Rightarrow> ws \<Rightarrow> state" where
  "ws_close s c =
     (if readyState s c = OPEN then s\<lparr>readyState := (readyState s)(c := CLOSING)\<rparr> else s)"

subsection \<open>The message handlers\<close>

definition new_player :: "string option \<Rightarrow> player" where
  "new_player ic = \<lparr>coins = 0, tap_value = 1, auto_per_sec = 0, taps = 0, icon = ic\<rparr>"

text \<open>The nickname a \<^verbatim>\<open>setName\<close> message asks for.\<close>

definition setName_nickname :: "variant \<Rightarrow> msg \<Rightarrow> string" where
  "setName_nickname v data =
     (case v of
        IndexJs \<Rightarrow> slice0 32 (trim (js_String (m_nickname data)))
      | Part000 \<Rightarrow> slice0 32 (trim (js_String (or_empty (m_nickname data)))))"

definition inUse :: "state \<Rightarrow> string \<Rightarrow> bool" where
  "inUse s nickname = list_ex (\<lambda>e. snd e = Some nickname) (clients s)"

definition setName :: "variant \<Rightarrow> string \<Rightarrow> state \<Rightarrow> ws \<Rightarrow> msg \<Rightarrow> state \<times> send list" where
  "setName v tok s c data =
     (let nickname = setName_nickname v data
      in if nickname = [] then (s, sendTo s c (SetNameFail ''empty''))
         else if toLowerCase nickname = ''admin'' \<and> m_adminToken data \<noteq> JStr tok
           then (s, sendTo s c (SetNameFail ''admin_auth''))
         else if bans s nickname \<noteq> None then (s, sendTo s c (SetNameFail ''banned''))
         else if inUse s nickname then (s, sendTo s c (SetNameFail ''inuse''))
         else
           (let s1 = (if players s nickname = None
                      then s\<lparr>players := (players s)(nickname \<mapsto> new_player None)\<rparr> else s);
                s2 = s1\<lparr>clients := clients_set (clients s1) c (Some nickname)\<rparr>
            in (s2, sendTo s2 c (SetNameOk nickname) @ broadcastPlayersAndRanks s2)))"

definition tap :: "state \<Rightarrow> string \<Rightarrow> state \<times> send list" where
  "tap s nickname =
     (case players s nickname of
        None \<Rightarrow> (s, [])
      | Some p \<Rightarrow>
          (let val = column (tap_value p);
               updated = p\<lparr>coins := sql_add_real (coins p) val, taps := sql_add_int (taps p) 1\<rparr>;
               s' = s\<lparr>players := (players s)(nickname \<mapsto> updated)\<rparr>
           in (s', broadcast s' (TapMsg nickname (column (coins updated)) (column (taps updated))
                                   (column (tap_value updated))))))"

definition buy_itemId :: "variant \<Rightarrow> msg \<Rightarrow> string" where
  "buy_itemId v data =
     (case v of
        IndexJs \<Rightarrow> js_String (m_itemId data)
      | Part000 \<Rightarrow> js_String (or_empty (m_itemId data)))"

definition buy :: "variant \<Rightarrow> state \<Rightarrow> ws \<Rightarrow> string \<Rightarrow> msg \<Rightarrow> error + state \<times> send list" where
  "buy v s c nickname data =
     (case shop_items s (buy_itemId v data) of
        None \<Rightarrow> Inr (s, sendTo s c (BuyFail ''invalid''))
      | Some item \<Rightarrow>
          (case players s nickname of
             None \<Rightarrow> Inl TypeError
           | Some p \<Rightarrow>
               if column (coins p) < column (price item)
               then Inr (s, sendTo s c (BuyFail ''not_enough''))
               else
                 (let newCoins = js_sub (column (coins p)) (column (price item));
                      newTap = (if item_type item = ''tap''
                                then js_add (column (tap_value p)) (column (item_value item))
                                else column (tap_value p));
                      newAuto = (if item_type item = ''auto''
                                 then js_add (column (auto_per_sec p)) (column (item_value item))
                                 else column (auto_per_sec p));
                      updated = \<lparr>coins = newCoins, tap_value = newTap, auto_per_sec = newAuto,
                                 taps = column (taps p), icon = icon p\<rparr>;
                      s' = s\<lparr>players := (players s)(nickname \<mapsto> updated)\<rparr>
                  in Inr (s', sendTo s' c (BuyOk nickname (column (coins updated))
                                             (column (tap_value updated))
                                             (column (auto_per_sec updated)))
                              @ broadcastPlayersAndRanks s'))))"

text \<open>The text a \<^verbatim>\<open>chat\<close> message carries, as the handler normalises it.\<close>

definition chat_text_of :: "msg \<Rightarrow> string" where
  "chat_text_of data = trim (slice0 500 (js_String (or_empty (m_text data))))"

text \<open>The loop of \<^verbatim>\<open>/ban\<close> over the entries of \<^verbatim>\<open>clients\<close>.\<close>

fun kick :: "string \<Rightarrow> (ws \<times> string option) list \<Rightarrow> state \<Rightarrow> state \<times> send list" where
  "kick target [] s = (s, [])"
| "kick target ((c, n) # es) s =
     (if n = Some target
      then (let out = sendTo s c (Banned target);
                r = kick target es (ws_close s c)
            in (fst r, out @ snd r))
      else kick target es s)"

definition ban :: "state \<Rightarrow> string \<Rightarrow> state \<times> send list" where
  "ban s target =
     (let s1 = s\<lparr>bans := (bans s)(target \<mapsto> ''banned by admin'')\<rparr>;
          r = kick target (clients s1) s1
      in (fst r, snd r @ broadcast (fst r) (System (target @ '' is banned''))))"

definition unban :: "state \<Rightarrow> string \<Rightarrow> state \<times> send list" where
  "unban s target =
     (let s1 = s\<lparr>bans := (bans s)(target := None)\<rparr>
      in (s1, broadcast s1 (System (target @ '' is unbanned''))))"

definition normal_chat :: "state \<Rightarrow> string \<Rightarrow> string \<Rightarrow> int \<Rightarrow> int \<Rightarrow> state \<times> send list" where
  "normal_chat s nickname text t1 t2 =
     (let ic = (case players s nickname of Some p \<Rightarrow> icon p | None \<Rightarrow> None);
          s' = s\<lparr>chat := chat s @ [\<lparr>chat_nickname = nickname, chat_icon = ic, chat_text = text,
                                    chat_ts = t1 div 1000\<rparr>]\<rparr>
      in (s', broadcast s' (ChatMsg nickname ic text t2)))"

text \<open>
  A target counts when \<^verbatim>\<open>parts[1]\<close> is a non-empty string. \<open>t1\<close> and \<open>t2\<close> are
  the two readings of \<^verbatim>\<open>Date.now()\<close>, in the order the handler takes them.
\<close>

definition has_target :: "string option \<Rightarrow> bool" where
  "has_target t = (case t of None \<Rightarrow> False | Some x \<Rightarrow> x \<noteq> [])"

text \<open>\<^verbatim>\<open>target\<close> as a statement parameter and inside a template string.\<close>

definition target_str :: "string option \<Rightarrow> string" where
  "target_str t = (case t of None \<Rightarrow> ''undefined'' | Some x \<Rightarrow> x)"

definition chat_handler :: "variant \<Rightarrow> state \<Rightarrow> string \<Rightarrow> msg \<Rightarrow> int \<Rightarrow> int \<Rightarrow> state \<times> send list" where
  "chat_handler v s nickname data t1 t2 =
     (let text = chat_text_of data
      in if text = [] then (s, [])
         else if nickname = ''admin'' \<and> startsWith text ''/''
           then
             (let parts = (case v of IndexJs \<Rightarrow> split_ws text | Part000 \<Rightarrow> split_ws (trim text));
                  cmd = (case index parts 0 of Some p \<Rightarrow> toLowerCase p | None \<Rightarrow> []);
                  target = index parts 1
              in case v of
                   IndexJs \<Rightarrow>
                     if cmd = ''/ban'' then (if has_target target then ban s (target_str target) else (s, []))
                     else if cmd = ''/bro'' then (if has_target target then unban s (target_str target) else (s, []))
                     else normal_chat s nickname text t1 t2
                 | Part000 \<Rightarrow>
                     if cmd = ''/ban'' \<and> has_target target then ban s (target_str target)
                     else if cmd = ''/bro'' \<and> has_target target then unban s (target_str target)
                     else normal_chat s nickname text t1 t2)
         else normal_chat s nickname text t1 t2)"

definition on_message :: "variant \<Rightarrow> string \<Rightarrow> state \<Rightarrow> ws \<Rightarrow> raw \<Rightarrow> int \<Rightarrow> int \<Rightarrow> error + state \<times> send list" where
  "on_message v tok s c r t1 t2 =
     (case r of
        Unparsable \<Rightarrow> Inr (s, [])
      | JsonNull \<Rightarrow> Inl TypeError
      | JsonObj data \<Rightarrow>
          if m_type data = JStr ''setName'' then Inr (setName v tok s c data)
          else
            (case clients_get (clients s) c of
               Some (Some nickname) \<Rightarrow>
                 if nickname = [] then Inr (s, sendTo s c (ErrorMsg ''not_named''))
                 else if m_type data = JStr ''tap'' then Inr (tap s nickname)
                 else if m_type data = JStr ''buy'' then buy v s c nickname data
                 else if m_type data = JStr ''chat'' then Inr (chat_handler v s nickname data t1 t2)
                 else Inr (s, [])
             | _ \<Rightarrow> Inr (s, sendTo s c (ErrorMsg ''not_named''))))"

subsection \<open>Connections, the tick and the icon upload\<close>

definition recentChats :: "state \<Rightarrow> chat_row list" where
  "recentChats s = take 200 (rev (chat s))"

definition on_connection :: "state \<Rightarrow> ws \<Rightarrow> state \<times> send list" where
  "on_connection s c =
     (let s0 = s\<lparr>wss_clients := (if c \<in> set (wss_clients s) then wss_clients s else wss_clients s @ [c]),
                 readyState := (readyState s)(c := OPEN)\<rparr>;
          s1 = s0\<lparr>clients := clients_set (clients s0) c None\<rparr>
      in (s1, sendTo s1 c (Init (rev (recentChats s1)))))"

definition on_close :: "state \<Rightarrow> ws \<Rightarrow> state \<times> send list" where
  "on_close s c =
     (let s0 = s\<lparr>wss_clients := removeAll c (wss_clients s),
                 readyState := (readyState s)(c := CLOSED)\<rparr>;
          s1 = s0\<lparr>clients := clients_delete (clients s0) c\<rparr>
      in (s1, broadcastPlayersAndRanks s1))"

definition tick :: "state \<Rightarrow> state \<times> send list" where
  "tick s =
     (let s' = s\<lparr>players := (\<lambda>k. case players s k of
                                    None \<Rightarrow> None
                                  | Some p \<Rightarrow> if auto_per_sec p > 0 \<and> column (auto_per_sec p) > 0
                                              then Some (p\<lparr>coins := sql_add_real (coins p)
                                                                      (column (auto_per_sec p))\<rparr>)
                                              else Some p)\<rparr>
      in (s', broadcastPlayersAndRanks s'))"

text \<open>
  \<^verbatim>\<open>POST /upload-icon\<close>. \<open>nick\<close> is \<^verbatim>\<open>req.body.nickname\<close>, \<open>file\<close> is
  \<^verbatim>\<open>path.extname(req.file.originalname)\<close> when a file came, and \<open>stamp\<close> is the
  time-and-random prefix of the new file name. The HTTP reply is not modelled.
\<close>

definition upload_icon :: "variant \<Rightarrow> state \<Rightarrow> string option \<Rightarrow> string option \<Rightarrow> string \<Rightarrow> state" where
  "upload_icon v s nick file stamp =
     (let nickname = (case v of
                        IndexJs \<Rightarrow> (case nick of None \<Rightarrow> [] | Some n \<Rightarrow> n)
                      | Part000 \<Rightarrow> slice0 32 (js_String (or_empty (case nick of None \<Rightarrow> JUndefined | Some n \<Rightarrow> JStr n))))
      in case file of
           None \<Rightarrow> s
         | Some e \<Rightarrow>
             if nickname = [] then s
             else
               (let ext = (case v of IndexJs \<Rightarrow> e | Part000 \<Rightarrow> toLowerCase e)
                in if v = Part000 \<and> ext \<notin> set [''.png'', ''.jpg'', ''.jpeg'', ''.gif'', '''']
                   then s
                   else
                     (let iconUrl = ''/icons/'' @ stamp @ ext
                      in case players s nickname of
                           Some p \<Rightarrow>
                             s\<lparr>players := (players s)(nickname \<mapsto>
                                 \<lparr>coins = column (coins p), tap_value = column (tap_value p),
                                  auto_per_sec = column (auto_per_sec p), taps = column (taps p),
                                  icon = Some iconUrl\<rparr>)\<rparr>
                         | None \<Rightarrow> s\<lparr>players := (players s)(nickname \<mapsto> new_player (Some iconUrl))\<rparr>)))"

subsection \<open>The server as a transition system\<close>

datatype event =
    Connection ws
  | Message ws raw int int
  | Close ws
  | Tick
  | UploadIcon "string option" "string option" string

definition step :: "variant \<Rightarrow> string \<Rightarrow> state \<Rightarrow> event \<Rightarrow> error + state \<times> send list" where
  "step v tok s e =
     (case e of
        Connection c \<Rightarrow> Inr (on_connection s c)
      | Message c r t1 t2 \<Rightarrow> on_message v tok s c r t1 t2
      | Close c \<Rightarrow> Inr (on_close s c)
      | Tick \<Rightarrow> Inr (tick s)
      | UploadIcon nick file stamp \<Rightarrow> Inr (upload_icon v s nick file stamp, []))"

text \<open>
  A run handles the events in order and keeps what each one sent; an uncaught
  error ends it.
\<close>

fun run :: "variant \<Rightarrow> string \<Rightarrow> state \<Rightarrow> event list \<Rightarrow> error + state \<times> send list list" where
  "run v tok s [] = Inr (s, [])"
| "run v tok s (e # es) =
     (case step v tok s e of
        Inl err \<Rightarrow> Inl err
      | Inr (s', out) \<Rightarrow>
          (case run v tok s' es of
             Inl err \<Rightarrow> Inl err
           | Inr (s'', outs) \<Rightarrow> Inr (s'', out # outs)))"

subsection \<open>Example states and messages\<close>

text \<open>The server right after startup on an empty database, before any connection.\<close>

definition fresh :: state where
  "fresh = \<lparr>players = Map.empty, shop_items = seed_shop Map.empty, bans = Map.empty, chat = [],
            clients = [], wss_clients = [], readyState = (\<lambda>_. CLOSED)\<rparr>"

text \<open>A message that carries only its \<^verbatim>\<open>type\<close>.\<close>

definition request :: "string \<Rightarrow> msg" where
  "request t = \<lparr>m_type = JStr t, m_nickname = JUndefined, m_adminToken = JUndefined,
                m_itemId = JUndefined, m_text = JUndefined\<rparr>"

text \<open>Two open connections; the first one plays as alice.\<close>

definition lobby :: state where
  "lobby = \<lparr>players = [''alice'' \<mapsto> \<lparr>coins = 12, tap_value = 2, auto_per_sec = 0, taps = 6, icon = None\<rparr>],
            shop_items = seed_shop Map.empty, bans = Map.empty, chat = [],
            clients = [(10, Some ''alice''), (11, None)], wss_clients = [10, 11],
            readyState = (\<lambda>c. if c = 10 \<or> c = 11 then OPEN else CLOSED)\<rparr>"

text \<open>An administrator and a player, with a third name on the ban list.\<close>

definition office :: state where
  "office = \<lparr>players = [''admin'' \<mapsto> new_player None, ''bob'' \<mapsto> new_player None],
             shop_items = seed_shop Map.empty, bans = [''carol'' \<mapsto> ''banned by admin''], chat = [],
             clients = [(10, Some ''admin''), (11, Some ''bob'')], wss_clients = [10, 11],
             readyState = (\<lambda>c. if c = 10 \<or> c = 11 then OPEN else CLOSED)\<rparr>"

text \<open>
  The lobby with alice one coin past the largest whole number a double can
  still count by ones.
\<close>

definition whale :: state where
  "whale = lobby\<lparr>players := (players lobby)(''alice'' \<mapsto>
             \<lparr>coins = 9007199254740993, tap_value = 1, auto_per_sec = 0, taps = 6, icon = None\<rparr>)\<rparr>"

text \<open>The lobby with alice at the largest 64-bit integer and a tap value of three.\<close>

definition mogul :: state where
  "mogul = lobby\<lparr>players := (players lobby)(''alice'' \<mapsto>
             \<lparr>coins = 9223372036854775807, tap_value = 3, auto_per_sec = 0, taps = 6, icon = None\<rparr>)\<rparr>"

subsection \<open>The chat text as the specification words it\<close>

text \<open>
  The two steps in the order of the specification: trimmed first, then cut to
  500 characters. The handler itself uses \<open>chat_text_of\<close>.
\<close>

definition chat_text_claimed :: "msg \<Rightarrow> string" where
  "chat_text_claimed data = slice0 500 (trim (js_String (or_empty (m_text data))))"

subsection \<open>Invariants\<close>

text \<open>Every player row has non-negative coins and a tap value of at least one.\<close>

definition player_inv :: "state \<Rightarrow> bool" where
  "player_inv s = (\<forall>k p. players s k = Some p \<longrightarrow> 0 \<le> coins p \<and> 1 \<le> tap_value p)"

text \<open>
  The catalogue is a table of the database; what it holds besides the rows of
  \<open>SHOP_DEFAULTS\<close> is not fixed by the source. This is the condition on it
  under which a purchase cannot lower a tap value.
\<close>

definition shop_ok :: "state \<Rightarrow> bool" where
  "shop_ok s = (\<forall>i it. shop_items s i = Some it \<longrightarrow> item_type it = ''tap'' \<longrightarrow> 0 \<le> item_value it)"

subsection \<open>Sessions and sequences of claims\<close>

text \<open>The nicknames held in the \<^verbatim>\<open>clients\<close> Map, in its order.\<close>

fun names :: "(ws \<times> string option) list \<Rightarrow> string list" where
  "names [] = []"
| "names ((c, None) # m) = names m"
| "names ((c, Some n) # m) = n # names m"

text \<open>
  Every connection has at most one entry in the Map, and no nickname is held
  by two entries.
\<close>

definition sessions_ok :: "state \<Rightarrow> bool" where
  "sessions_ok s = (distinct (map fst (clients s)) \<and> distinct (names (clients s)))"

text \<open>What a handler sent contains a \<^verbatim>\<open>setNameResult\<close> with \<^verbatim>\<open>ok: true\<close>.\<close>

definition setName_ok :: "send list \<Rightarrow> bool" where
  "setName_ok out = list_ex (\<lambda>e. case snd e of SetNameOk _ \<Rightarrow> True | _ \<Rightarrow> False) out"

text \<open>The request asks for the administrator's name without the secret.\<close>

definition wrong_credential :: "string \<Rightarrow> string \<Rightarrow> ws \<times> msg \<Rightarrow> bool" where
  "wrong_credential tok n req = (toLowerCase n = ''admin'' \<and> m_adminToken (snd req) \<noteq> JStr tok)"

text \<open>
  A request for the name \<open>n\<close> was turned down: for the wrong credential if
  it has one, and otherwise because the name is held.
\<close>

definition refused :: "string \<Rightarrow> string \<Rightarrow> ws \<times> msg \<Rightarrow> send list \<Rightarrow> bool" where
  "refused tok n req out =
     (out = [(fst req, SetNameFail (if wrong_credential tok n req then ''admin_auth'' else ''inuse''))])"

text \<open>Requests, each with the connection that sends it, as message events.\<close>

definition claims :: "int \<Rightarrow> int \<Rightarrow> (ws \<times> msg) list \<Rightarrow> event list" where
  "claims t1 t2 reqs = map (\<lambda>req. Message (fst req) (JsonObj (snd req)) t1 t2) reqs"

section \<open>Properties\<close>

subsection \<open>Rounding to a double\<close>

lemma drop_bits_small: "n < 9007199254740992 \<Longrightarrow> drop_bits n = 0"
  by (simp add: drop_bits.simps)

lemma round_mag_small: "n < 9007199254740992 \<Longrightarrow> round_mag n = n"
  by (simp add: round_mag_def drop_bits_small)

lemma to_double_safe: "safe x \<Longrightarrow> to_double x = x"
  by (auto simp: safe_def to_double_def round_mag_small)

lemma drop_bits_le: "0 < n \<Longrightarrow> 2 ^ drop_bits n \<le> n"
proof (induction n rule: drop_bits.induct)
  case (1 n)
  show ?case
  proof (cases "n < 9007199254740992")
    case True
    with 1 show ?thesis by (simp add: drop_bits_small)
  next
    case False
    then have "0 < n div 2" by simp
    with 1 False have "2 ^ drop_bits (n div 2) \<le> n div 2" by simp
    then have "2 * 2 ^ drop_bits (n div 2) \<le> n" by simp
    moreover have "drop_bits n = Suc (drop_bits (n div 2))"
      using False by (simp add: drop_bits.simps)
    ultimately show ?thesis by simp
  qed
qed

lemma round_mag_nonneg: "0 \<le> n \<Longrightarrow> 0 \<le> round_mag n"
  by (simp add: round_mag_def Let_def pos_imp_zdiv_nonneg_iff)

lemma round_mag_pos: "0 < n \<Longrightarrow> 0 < round_mag n"
proof -
  assume n: "0 < n"
  have "0 < n div 2 ^ drop_bits n"
    using drop_bits_le [OF n] by (simp add: pos_imp_zdiv_pos_iff)
  then show ?thesis by (simp add: round_mag_def Let_def)
qed

lemma to_double_nonneg: "0 \<le> x \<Longrightarrow> 0 \<le> to_double x"
  by (simp add: to_double_def round_mag_nonneg)

lemma to_double_ge1: "1 \<le> x \<Longrightarrow> 1 \<le> to_double x"
  using round_mag_pos [of x] by (simp add: to_double_def)

lemma to_double_pos_iff: "0 < to_double x \<longleftrightarrow> 0 < x"
  using round_mag_pos [of x] round_mag_pos [of "- x"] round_mag_small [of 0]
  by (cases "x = 0") (auto simp: to_double_def)

lemma column_safe: "safe x \<Longrightarrow> column x = x"
  by (simp add: column_def to_double_safe)

lemma safe_numeral [simp]:
  "safe 0" "safe 1" "\<bar>numeral k :: int\<bar> < 9007199254740992 \<Longrightarrow> safe (numeral k)"
  by (simp_all add: safe_def)

lemma rounded_examples:
  "to_double 9007199254740993 = 9007199254740992"
  "to_double 9223372036854775807 = 9223372036854775808"
  "to_double 9223372036854775811 = 9223372036854775808"
  "to_double 9223372036854775808 = 9223372036854775808"
proof -
  have d: "drop_bits 9007199254740993 = 1" "drop_bits 9223372036854775807 = 10"
    "drop_bits 9223372036854775811 = 11" "drop_bits 9223372036854775808 = 11"
    by (simp_all add: drop_bits.simps)
  show "to_double 9007199254740993 = 9007199254740992"
    "to_double 9223372036854775807 = 9223372036854775808"
    "to_double 9223372036854775811 = 9223372036854775808"
    "to_double 9223372036854775808 = 9223372036854775808"
    by (simp_all add: to_double_def round_mag_def d)
qed

subsection \<open>Facts about the example states\<close>

lemma seed_shop_empty:
  "seed_shop Map.empty = [''cheapUp'' \<mapsto> SHOP_DEFAULTS ! 0, ''midUp'' \<mapsto> SHOP_DEFAULTS ! 1,
                          ''auto1'' \<mapsto> SHOP_DEFAULTS ! 2, ''auto5'' \<mapsto> SHOP_DEFAULTS ! 3]"
  by (simp add: seed_shop_def SHOP_DEFAULTS_def insertItem_def)

lemma lobby_alice:
  "clients_get (clients lobby) 10 = Some (Some ''alice'')"
  "readyState lobby 10 = OPEN"
  "players lobby ''alice'' = Some \<lparr>coins = 12, tap_value = 2, auto_per_sec = 0, taps = 6, icon = None\<rparr>"
  by (simp_all add: lobby_def clients_get_def)

lemma lobby_shop:
  "shop_items lobby ''cheapUp'' = Some (SHOP_DEFAULTS ! 0)"
  "shop_items lobby ''midUp'' = Some (SHOP_DEFAULTS ! 1)"
  by (simp_all add: lobby_def seed_shop_empty)

subsection \<open>Taps\<close>

lemma tap_step:
  assumes "clients_get (clients s) c = Some (Some nickname)" "nickname \<noteq> []"
    "m_type data = JStr ''tap''"
  shows "step v tok s (Message c (JsonObj data) t1 t2) = Inr (tap s nickname)"
  using assms by (simp add: step_def on_message_def)

lemma safe_int64: "safe x \<Longrightarrow> int64 x"
  unfolding safe_def int64_def by linarith

lemma tap_safe:
  assumes "players s nickname = Some p"
    and "safe (coins p)" and "safe (tap_value p)" and "safe (coins p + tap_value p)"
    and "safe (taps p)" and "safe (taps p + 1)"
  shows "\<exists>out. tap s nickname
           = (s\<lparr>players := (players s)(nickname \<mapsto>
                  p\<lparr>coins := coins p + tap_value p, taps := taps p + 1\<rparr>)\<rparr>, out)"
  using assms
  by (simp add: tap_def Let_def column_safe sql_add_real_def sql_add_int_def to_double_safe safe_int64)

lemma safe_between:
  assumes "safe a" and "safe (a + (1 + int N) * v)"
  shows "safe (a + v)"
proof -
  have sgn: "(0 \<le> v \<and> 0 \<le> int N * v) \<or> (v \<le> 0 \<and> int N * v \<le> 0)"
    by (cases "0 \<le> v") (auto simp: mult_nonneg_nonpos)
  have e: "a + (1 + int N) * v = a + v + int N * v"
    by (simp add: algebra_simps)
  from assms have "\<bar>a\<bar> < 9007199254740992" and "\<bar>a + v + int N * v\<bar> < 9007199254740992"
    by (simp_all add: safe_def e)
  with sgn have "\<bar>a + v\<bar> < 9007199254740992"
    by linarith
  then show ?thesis by (simp add: safe_def)
qed

text \<open>
  C4, as the code has it. A connection that holds a nickname whose player row
  exists taps \<open>N\<close> times in a row. If the coins before and after, the tap
  value and the tap counts are all whole numbers a double holds exactly
  (magnitude below \<open>2 ^ 53\<close>), the row's coins grow by \<open>N\<close> times its tap
  value, its taps by \<open>N\<close>, and nothing else in the row or in the rest of the
  state changes.
\<close>

theorem taps_accumulate:
  assumes "clients_get (clients s) c = Some (Some nickname)" and "nickname \<noteq> []"
    and "m_type data = JStr ''tap''"
    and "players s nickname = Some p"
    and "safe (coins p)" and "safe (tap_value p)" and "safe (coins p + int N * tap_value p)"
    and "safe (taps p)" and "safe (taps p + int N)"
  shows "\<exists>outs. run v tok s (replicate N (Message c (JsonObj data) t1 t2))
           = Inr (s\<lparr>players := (players s)(nickname \<mapsto>
                       p\<lparr>coins := coins p + int N * tap_value p, taps := taps p + int N\<rparr>)\<rparr>, outs)"
  using assms
proof (induction N arbitrary: s p)
  case 0
  then have "(players s)(nickname \<mapsto> p) = players s"
    by (simp add: fun_upd_idem)
  then show ?case by simp
next
  case (Suc N)
  let ?p1 = "p\<lparr>coins := coins p + tap_value p, taps := taps p + 1\<rparr>"
  let ?s1 = "s\<lparr>players := (players s)(nickname \<mapsto> ?p1)\<rparr>"
  have c1: "safe (coins p + tap_value p)"
    using safe_between [of "coins p" N "tap_value p"] Suc.prems(5,7) by simp
  have t1: "safe (taps p + 1)"
    using Suc.prems(8,9) unfolding safe_def by auto
  from tap_safe [OF Suc.prems(4,5,6) c1 Suc.prems(8) t1] obtain out
    where "tap s nickname = (?s1, out)" by blast
  then have st: "step v tok s (Message c (JsonObj data) t1 t2) = Inr (?s1, out)"
    using Suc.prems by (simp add: tap_step)
  have "\<exists>outs. run v tok ?s1 (replicate N (Message c (JsonObj data) t1 t2))
           = Inr (?s1\<lparr>players := (players ?s1)(nickname \<mapsto>
                       ?p1\<lparr>coins := coins ?p1 + int N * tap_value ?p1, taps := taps ?p1 + int N\<rparr>)\<rparr>, outs)"
    using Suc.prems c1 t1 by (intro Suc.IH) (simp_all add: algebra_simps)
  then obtain outs where r: "run v tok ?s1 (replicate N (Message c (JsonObj data) t1 t2))
           = Inr (?s1\<lparr>players := (players ?s1)(nickname \<mapsto>
                       ?p1\<lparr>coins := coins ?p1 + int N * tap_value ?p1, taps := taps ?p1 + int N\<rparr>)\<rparr>, outs)"
    by blast
  have fin: "?s1\<lparr>players := (players ?s1)(nickname \<mapsto>
                 ?p1\<lparr>coins := coins ?p1 + int N * tap_value ?p1, taps := taps ?p1 + int N\<rparr>)\<rparr>
             = s\<lparr>players := (players s)(nickname \<mapsto>
                 p\<lparr>coins := coins p + int (Suc N) * tap_value p, taps := taps p + int (Suc N)\<rparr>)\<rparr>"
    by (simp add: algebra_simps)
  show ?case
    by (simp only: replicate_Suc run.simps st r fin sum.case prod.case) blast
qed

theorem taps_accumulate_witness:
  "\<exists>outs. run IndexJs ''t'' lobby (replicate 3 (Message 10 (JsonObj (request ''tap'')) 0 0))
     = Inr (lobby\<lparr>players := (players lobby)(''alice'' \<mapsto>
              \<lparr>coins = 18, tap_value = 2, auto_per_sec = 0, taps = 9, icon = None\<rparr>)\<rparr>, outs)"
proof -
  have ty: "m_type (request ''tap'') = JStr ''tap''"
    by (simp add: request_def)
  from taps_accumulate [OF lobby_alice(1) _ ty lobby_alice(3), of 3 IndexJs "''t''" 0 0]
  show ?thesis by (simp add: safe_def)
qed

lemma mogul_alice:
  "clients_get (clients mogul) 10 = Some (Some ''alice'')"
  "players mogul ''alice''
     = Some \<lparr>coins = 9223372036854775807, tap_value = 3, auto_per_sec = 0, taps = 6, icon = None\<rparr>"
  by (simp_all add: mogul_def lobby_def clients_get_def)

text \<open>
  C4 as stated fails for large balances: with 9223372036854775807 coins and a
  tap value of 3, one tap leaves 9223372036854775808 coins, not
  9223372036854775810; the sum is taken in doubles.
\<close>

theorem taps_accumulate_counterexample:
  "step IndexJs ''t'' mogul (Message 10 (JsonObj (request ''tap'')) 0 0)
     = Inr (mogul\<lparr>players := (players mogul)(''alice'' \<mapsto>
              \<lparr>coins = 9223372036854775808, tap_value = 3, auto_per_sec = 0, taps = 7, icon = None\<rparr>)\<rparr>,
            [(10, TapMsg ''alice'' 9223372036854775808 7 3),
             (11, TapMsg ''alice'' 9223372036854775808 7 3)])
   \<and> (9223372036854775807 :: int) + 1 * 3 = 9223372036854775810"
proof -
  have ty: "m_type (request ''tap'') = JStr ''tap''"
    by (simp add: request_def)
  have b: "broadcast (mogul\<lparr>players := f\<rparr>) m = [(10, m), (11, m)]" for f m
    by (simp add: broadcast_def mogul_def lobby_def)
  show ?thesis
    by (simp add: tap_step [OF mogul_alice(1) _ ty] tap_def mogul_alice(2) Let_def column_def
        sql_add_real_def sql_add_int_def int64_def to_double_safe safe_def rounded_examples b)
qed

subsection \<open>Purchases\<close>

lemma buy_step:
  assumes "clients_get (clients s) c = Some (Some nickname)" "nickname \<noteq> []"
    "m_type data = JStr ''buy''"
  shows "step v tok s (Message c (JsonObj data) t1 t2) = buy v s c nickname data"
  using assms by (simp add: step_def on_message_def)



text \<open>
  C6, as the code has it. A purchase the buyer can pay, with the player's
  counters, the item's price and value and the results all whole numbers a
  double holds exactly (magnitude below \<open>2 ^ 53\<close>), debits exactly the
  price, keeps taps and icon, and raises only the counter of the item's kind by
  the item's value: the tap value for a \<^verbatim>\<open>tap\<close> item, the automatic income for
  an \<^verbatim>\<open>auto\<close> item. No other player's row changes, and the buyer is sent the
  new figures.
\<close>

theorem buy_effect:
  assumes "clients_get (clients s) c = Some (Some nickname)" and "nickname \<noteq> []"
    and "readyState s c = OPEN"
    and "m_type data = JStr ''buy''"
    and "shop_items s (buy_itemId v data) = Some item"
    and "players s nickname = Some p" and "price item \<le> coins p"
    and "safe (coins p)" and "safe (tap_value p)" and "safe (auto_per_sec p)" and "safe (taps p)"
    and "safe (price item)" and "safe (item_value item)"
    and "safe (coins p - price item)"
    and "safe (tap_value p + item_value item)" and "safe (auto_per_sec p + item_value item)"
  shows "\<exists>s' out p'. step v tok s (Message c (JsonObj data) t1 t2) = Inr (s', out)
           \<and> players s' nickname = Some p'
           \<and> coins p' = coins p - price item \<and> taps p' = taps p \<and> icon p' = icon p
           \<and> (item_type item = ''tap'' \<longrightarrow>
                 tap_value p' = tap_value p + item_value item \<and> auto_per_sec p' = auto_per_sec p)
           \<and> (item_type item = ''auto'' \<longrightarrow>
                 auto_per_sec p' = auto_per_sec p + item_value item \<and> tap_value p' = tap_value p)
           \<and> (\<forall>k. k \<noteq> nickname \<longrightarrow> players s' k = players s k)
           \<and> hd out = (c, BuyOk nickname (coins p') (tap_value p') (auto_per_sec p'))"
  using assms
  by (simp add: buy_step buy_def Let_def sendTo_def column_safe js_sub_def js_add_def to_double_safe)

theorem buy_effect_witness:
  "\<exists>s' out p'. step Part000 ''t'' lobby (Message 10 (JsonObj ((request ''buy'')\<lparr>m_itemId := JStr ''cheapUp''\<rparr>)) 0 0)
       = Inr (s', out)
     \<and> players s' ''alice'' = Some p' \<and> coins p' = 2 \<and> tap_value p' = 3 \<and> auto_per_sec p' = 0
     \<and> taps p' = 6 \<and> icon p' = None"
proof -
  let ?d = "(request ''buy'')\<lparr>m_itemId := JStr ''cheapUp''\<rparr>"
  have ty: "m_type ?d = JStr ''buy''" and iid: "buy_itemId Part000 ?d = ''cheapUp''"
    by (simp_all add: request_def buy_itemId_def or_empty_def)
  have it: "shop_items lobby (buy_itemId Part000 ?d) = Some (SHOP_DEFAULTS ! 0)"
    by (simp add: iid lobby_shop)
  have le: "price (SHOP_DEFAULTS ! 0)
              \<le> coins \<lparr>coins = 12, tap_value = 2, auto_per_sec = 0, taps = 6, icon = None\<rparr>"
    by (simp add: SHOP_DEFAULTS_def)
  from buy_effect [OF lobby_alice(1) _ lobby_alice(2) ty it lobby_alice(3) le, of "''t''" 0 0]
  show ?thesis
    by (simp add: SHOP_DEFAULTS_def safe_def) blast
qed

lemma whale_alice:
  "clients_get (clients whale) 10 = Some (Some ''alice'')"
  "players whale ''alice''
     = Some \<lparr>coins = 9007199254740993, tap_value = 1, auto_per_sec = 0, taps = 6, icon = None\<rparr>"
  "shop_items whale ''cheapUp'' = Some (SHOP_DEFAULTS ! 0)"
  "readyState whale 10 = OPEN"
  by (simp_all add: whale_def lobby_def clients_get_def seed_shop_empty)

text \<open>
  C6 as stated fails for large balances: with 9007199254740993 coins, buying
  the item priced 10 leaves 9007199254740982 coins, a debit of 11; the row is
  read as doubles and the difference taken in doubles.
\<close>

theorem buy_effect_counterexample:
  "step IndexJs ''t'' whale (Message 10 (JsonObj ((request ''buy'')\<lparr>m_itemId := JStr ''cheapUp''\<rparr>)) 0 0)
     = Inr (whale\<lparr>players := (players whale)(''alice'' \<mapsto>
              \<lparr>coins = 9007199254740982, tap_value = 2, auto_per_sec = 0, taps = 6, icon = None\<rparr>)\<rparr>,
            [(10, BuyOk ''alice'' 9007199254740982 2 0), (10, Ranks), (11, Ranks)])
   \<and> (9007199254740993 :: int) - 10 = 9007199254740983"
proof -
  let ?d = "(request ''buy'')\<lparr>m_itemId := JStr ''cheapUp''\<rparr>"
  have ty: "m_type ?d = JStr ''buy''" and iid: "buy_itemId IndexJs ?d = ''cheapUp''"
    by (simp_all add: request_def buy_itemId_def)
  have b: "broadcast (whale\<lparr>players := f\<rparr>) m = [(10, m), (11, m)]"
    and o: "readyState (whale\<lparr>players := f\<rparr>) 10 = OPEN" for f m
    by (simp_all add: broadcast_def whale_def lobby_def)
  show ?thesis
    by (simp add: buy_step [OF whale_alice(1) _ ty] buy_def iid whale_alice Let_def column_def
        js_sub_def js_add_def to_double_safe safe_def rounded_examples SHOP_DEFAULTS_def
        sendTo_def broadcastPlayersAndRanks_def b o)
qed

subsection \<open>Chat\<close>

lemma kick_chat: "chat (fst (kick target es s)) = chat s"
  by (induction target es s rule: kick.induct) (simp_all add: Let_def ws_close_def)

lemma setName_chat: "setName v tok s c data = (s', out) \<Longrightarrow> chat s' = chat s"
  by (auto simp: setName_def Let_def split: if_splits)

lemma tap_chat: "tap s nickname = (s', out) \<Longrightarrow> chat s' = chat s"
  by (auto simp: tap_def Let_def split: option.splits)

lemma buy_chat: "buy v s c nickname data = Inr (s', out) \<Longrightarrow> chat s' = chat s"
  by (auto simp: buy_def Let_def split: option.splits if_splits)

lemma ban_chat: "chat (fst (ban s target)) = chat s"
  by (simp add: ban_def Let_def kick_chat)

lemma unban_chat: "chat (fst (unban s target)) = chat s"
  by (simp add: unban_def Let_def)

lemma chat_handler_cases:
  "chat_handler v s nickname data t1 t2 = normal_chat s nickname (chat_text_of data) t1 t2
   \<or> chat (fst (chat_handler v s nickname data t1 t2)) = chat s"
  by (cases v) (simp_all add: chat_handler_def Let_def ban_chat unban_chat)

lemma history_last:
  "rev (take 200 (rev (xs @ [r]))) = rev (take 199 (rev xs)) @ [r]"
  by simp

lemma lobby_chat_step:
  "step IndexJs ''t'' lobby (Message 10 (JsonObj ((request ''chat'')\<lparr>m_text := JStr ''hello''\<rparr>)) 5000 5001)
     = Inr (lobby\<lparr>chat := [\<lparr>chat_nickname = ''alice'', chat_icon = None, chat_text = ''hello'', chat_ts = 5\<rparr>]\<rparr>,
            [(10, ChatMsg ''alice'' None ''hello'' 5001), (11, ChatMsg ''alice'' None ''hello'' 5001)])"
  by (simp add: step_def on_message_def request_def lobby_def clients_get_def chat_handler_def
      chat_text_of_def or_empty_def slice0_def trim_def is_space_def startsWith_def normal_chat_def
      broadcast_def Let_def)

text \<open>
  C10. Whenever handling a message appends a row to the chat log, the row's
  timestamp is the first clock reading in whole seconds, while the broadcast
  of the same message carries the second clock reading in milliseconds. A
  connection opened next gets the row as the newest entry of its history.
  With a clock past the epoch that does not run backwards between the two
  readings, the stored and the broadcast timestamps differ.
\<close>

theorem chat_timestamps:
  assumes "step v tok s (Message c r t1 t2) = Inr (s', out)"
    and "chat s' \<noteq> chat s"
    and "0 < t1" and "t1 \<le> t2"
  shows "\<exists>row. chat s' = chat s @ [row]
           \<and> chat_ts row = t1 div 1000
           \<and> out = broadcast s' (ChatMsg (chat_nickname row) (chat_icon row) (chat_text row) t2)
           \<and> (\<exists>h. snd (on_connection s' c') = [(c', Init (h @ [row]))])
           \<and> chat_ts row \<noteq> t2"
proof -
  from assms(1,2) obtain data nickname where r: "r = JsonObj data"
    and h: "chat_handler v s nickname data t1 t2 = (s', out)"
    by (auto simp: step_def on_message_def sendTo_def split: raw.splits if_splits option.splits
        dest: buy_chat setName_chat tap_chat)
  have "chat_handler v s nickname data t1 t2 = normal_chat s nickname (chat_text_of data) t1 t2"
    using chat_handler_cases [of v s nickname data t1 t2] h assms(2) by auto
  with h have n: "normal_chat s nickname (chat_text_of data) t1 t2 = (s', out)" by simp
  define ic where "ic = (case players s nickname of Some p \<Rightarrow> icon p | None \<Rightarrow> None)"
  define row where "row = \<lparr>chat_nickname = nickname, chat_icon = ic, chat_text = chat_text_of data,
                           chat_ts = t1 div 1000\<rparr>"
  have c: "chat s' = chat s @ [row]" and o: "out = broadcast s' (ChatMsg nickname ic (chat_text_of data) t2)"
    using n by (auto simp: normal_chat_def Let_def row_def ic_def)
  have i: "snd (on_connection s' c') = [(c', Init (rev (take 199 (rev (chat s))) @ [row]))]"
    by (simp add: on_connection_def Let_def sendTo_def recentChats_def c)
  have "t1 div 1000 < t1" using assms(3) by simp
  then have d: "chat_ts row \<noteq> t2" using assms(4) by (simp add: row_def)
  show ?thesis
    using c o i d by (intro exI [of _ row]) (simp add: row_def)
qed


theorem chat_timestamps_witness:
  "\<exists>s' out row. step IndexJs ''t'' lobby
        (Message 10 (JsonObj ((request ''chat'')\<lparr>m_text := JStr ''hello''\<rparr>)) 5000 5001) = Inr (s', out)
     \<and> chat s' = chat lobby @ [row] \<and> chat_ts row = 5
     \<and> out = broadcast s' (ChatMsg (chat_nickname row) (chat_icon row) (chat_text row) 5001)
     \<and> (\<exists>h. snd (on_connection s' 3) = [(3, Init (h @ [row]))])"
proof -
  have ne: "chat (lobby\<lparr>chat := [\<lparr>chat_nickname = ''alice'', chat_icon = None, chat_text = ''hello'', chat_ts = 5\<rparr>]\<rparr>)
              \<noteq> chat lobby"
    by (simp add: lobby_def)
  from chat_timestamps [OF lobby_chat_step ne, of 3]
  show ?thesis
    using lobby_chat_step by simp
qed

lemma dropWhile_rev_dropWhile:
  "dropWhile P (rev (dropWhile P (rev (dropWhile P xs)))) = rev (dropWhile P (rev (dropWhile P xs)))"
  by (metis (no_types, lifting) Nil_is_rev_conv dropWhile_idem
    dropWhile_eq_Nil_conv dropWhile_eq_self_iff dropWhile_last hd_rev
    last_rev)

lemma trim_idem: "trim (trim s) = trim s"
proof -
  have "dropWhile is_space (rev (rev (dropWhile is_space (rev (dropWhile is_space s)))))
          = dropWhile is_space (rev (dropWhile is_space s))"
    by simp
  then show ?thesis
    by (simp only: trim_def dropWhile_rev_dropWhile)
qed

lemma length_trim: "length (trim s) \<le> length s"
proof -
  have "length (trim s) \<le> length (dropWhile is_space s)"
    unfolding trim_def by (metis length_dropWhile_le length_rev)
  also have "\<dots> \<le> length s" by (rule length_dropWhile_le)
  finally show ?thesis .
qed

lemma length_chat_text_of: "length (chat_text_of data) \<le> 500"
proof -
  have "length (chat_text_of data) \<le> length (slice0 500 (js_String (or_empty (m_text data))))"
    unfolding chat_text_of_def by (rule length_trim)
  also have "\<dots> \<le> 500" by (simp add: slice0_def)
  finally show ?thesis .
qed

lemma chat_step:
  assumes "clients_get (clients s) c = Some (Some nickname)" "nickname \<noteq> []"
    "m_type data = JStr ''chat''"
  shows "step v tok s (Message c (JsonObj data) t1 t2) = Inr (chat_handler v s nickname data t1 t2)"
  using assms by (simp add: step_def on_message_def)

text \<open>
  C7, as the code has it. The chat text is cut to 500 characters first and
  trimmed afterwards, so it never exceeds 500 characters. For a connection
  that holds a nickname: when that text is empty the message is dropped, with
  no reply, no stored row and no broadcast; when it is not empty and is not an
  administrator's command, one row with that text is stored and the same text
  is broadcast.
\<close>

theorem chat_text_order:
  assumes "clients_get (clients s) c = Some (Some nickname)" and "nickname \<noteq> []"
    and "m_type data = JStr ''chat''"
  shows "chat_text_of data = trim (slice0 500 (js_String (or_empty (m_text data))))
    \<and> length (chat_text_of data) \<le> 500
    \<and> (chat_text_of data = [] \<longrightarrow> step v tok s (Message c (JsonObj data) t1 t2) = Inr (s, []))
    \<and> (chat_text_of data \<noteq> [] \<and> \<not> (nickname = ''admin'' \<and> startsWith (chat_text_of data) ''/'') \<longrightarrow>
         (\<exists>s' ic. step v tok s (Message c (JsonObj data) t1 t2)
                     = Inr (s', broadcast s' (ChatMsg nickname ic (chat_text_of data) t2))
            \<and> chat s' = chat s @ [\<lparr>chat_nickname = nickname, chat_icon = ic,
                                    chat_text = chat_text_of data, chat_ts = t1 div 1000\<rparr>]))"
proof (intro conjI impI)
  show "chat_text_of data = trim (slice0 500 (js_String (or_empty (m_text data))))"
    by (simp add: chat_text_of_def)
  show "length (chat_text_of data) \<le> 500" by (rule length_chat_text_of)
next
  assume "chat_text_of data = []"
  then show "step v tok s (Message c (JsonObj data) t1 t2) = Inr (s, [])"
    using assms by (simp add: chat_step chat_handler_def)
next
  assume a: "chat_text_of data \<noteq> [] \<and> \<not> (nickname = ''admin'' \<and> startsWith (chat_text_of data) ''/'')"
  then have "chat_handler v s nickname data t1 t2 = normal_chat s nickname (chat_text_of data) t1 t2"
    by (auto simp: chat_handler_def Let_def)
  then show "\<exists>s' ic. step v tok s (Message c (JsonObj data) t1 t2)
                     = Inr (s', broadcast s' (ChatMsg nickname ic (chat_text_of data) t2))
            \<and> chat s' = chat s @ [\<lparr>chat_nickname = nickname, chat_icon = ic,
                                    chat_text = chat_text_of data, chat_ts = t1 div 1000\<rparr>]"
    using assms by (simp add: chat_step normal_chat_def Let_def)
qed

theorem chat_text_order_witness:
  "step Part000 ''t'' lobby (Message 10 (JsonObj ((request ''chat'')\<lparr>m_text := JStr ''  ''\<rparr>)) 0 0) = Inr (lobby, [])
   \<and> (\<exists>s' ic. step Part000 ''t'' lobby (Message 10 (JsonObj ((request ''chat'')\<lparr>m_text := JStr '' hello ''\<rparr>)) 4000 4000)
         = Inr (s', broadcast s' (ChatMsg ''alice'' ic ''hello'' 4000))
       \<and> chat s' = chat lobby @ [\<lparr>chat_nickname = ''alice'', chat_icon = ic, chat_text = ''hello'', chat_ts = 4\<rparr>])"
proof -
  have ty: "m_type ((request ''chat'')\<lparr>m_text := x\<rparr>) = JStr ''chat''" for x
    by (simp add: request_def)
  have e: "chat_text_of ((request ''chat'')\<lparr>m_text := JStr ''  ''\<rparr>) = []"
    and h: "chat_text_of ((request ''chat'')\<lparr>m_text := JStr '' hello ''\<rparr>) = ''hello''"
    by (simp_all add: chat_text_of_def request_def or_empty_def slice0_def trim_def is_space_def)
  from chat_text_order [OF lobby_alice(1) _ ty [of "JStr ''  ''"], of Part000 "''t''" 0 0] e
  have one: "step Part000 ''t'' lobby (Message 10 (JsonObj ((request ''chat'')\<lparr>m_text := JStr ''  ''\<rparr>)) 0 0)
               = Inr (lobby, [])"
    by simp
  have two: "\<exists>s' ic. step Part000 ''t'' lobby
        (Message 10 (JsonObj ((request ''chat'')\<lparr>m_text := JStr '' hello ''\<rparr>)) 4000 4000)
          = Inr (s', broadcast s' (ChatMsg ''alice'' ic ''hello'' 4000))
       \<and> chat s' = chat lobby @ [\<lparr>chat_nickname = ''alice'', chat_icon = ic, chat_text = ''hello'', chat_ts = 4\<rparr>]"
  proof -
    have "''hello'' \<noteq> [] \<and> \<not> (''alice'' = ''admin'' \<and> startsWith ''hello'' ''/'') \<longrightarrow>
       (\<exists>s' ic. step Part000 ''t'' lobby
          (Message 10 (JsonObj ((request ''chat'')\<lparr>m_text := JStr '' hello ''\<rparr>)) 4000 4000)
            = Inr (s', broadcast s' (ChatMsg ''alice'' ic ''hello'' 4000))
         \<and> chat s' = chat lobby @ [\<lparr>chat_nickname = ''alice'', chat_icon = ic, chat_text = ''hello'',
                                       chat_ts = 4000 div 1000\<rparr>])"
      using chat_text_order [OF lobby_alice(1) _ ty [of "JStr '' hello ''"], of Part000 "''t''" 4000 4000]
      unfolding h by blast
    then show ?thesis by simp
  qed
  from one two show ?thesis by simp
qed

lemma dropWhile_replicate_append:
  "P x \<Longrightarrow> dropWhile P (replicate n x @ ys) = dropWhile P ys"
  by (induction n) auto

lemma padded_text:
  "chat_text_of ((request ''chat'')\<lparr>m_text := JStr (replicate 500 (CHR '' '') @ ''hi'')\<rparr>) = []"
  "chat_text_claimed ((request ''chat'')\<lparr>m_text := JStr (replicate 500 (CHR '' '') @ ''hi'')\<rparr>) = ''hi''"
proof -
  have sp: "is_space (CHR '' '')" by (simp add: is_space_def)
  have "dropWhile is_space (replicate 500 (CHR '' '')) = []"
    using dropWhile_replicate_append [of is_space "CHR '' ''" 500 "[]"] sp by simp
  then show "chat_text_of ((request ''chat'')\<lparr>m_text := JStr (replicate 500 (CHR '' '') @ ''hi'')\<rparr>) = []"
    by (simp add: chat_text_of_def request_def or_empty_def slice0_def trim_def)
  have "dropWhile is_space (replicate 500 (CHR '' '') @ ''hi'') = ''hi''"
    using dropWhile_replicate_append [of is_space "CHR '' ''" 500 "''hi''"] sp by (simp add: is_space_def)
  then show "chat_text_claimed ((request ''chat'')\<lparr>m_text := JStr (replicate 500 (CHR '' '') @ ''hi'')\<rparr>) = ''hi''"
    by (simp add: chat_text_claimed_def request_def or_empty_def slice0_def trim_def is_space_def)
qed

text \<open>
  C7 as stated fails: 500 blanks followed by \<^verbatim>\<open>hi\<close> would read \<^verbatim>\<open>hi\<close> when
  trimmed first, but both variants cut first, are left with blanks only, and
  drop the message.
\<close>

theorem chat_trim_first_counterexample:
  "chat_text_claimed ((request ''chat'')\<lparr>m_text := JStr (replicate 500 (CHR '' '') @ ''hi'')\<rparr>) = ''hi''
   \<and> step IndexJs ''t'' lobby
        (Message 10 (JsonObj ((request ''chat'')\<lparr>m_text := JStr (replicate 500 (CHR '' '') @ ''hi'')\<rparr>)) 0 0)
       = Inr (lobby, [])
   \<and> step Part000 ''t'' lobby
        (Message 10 (JsonObj ((request ''chat'')\<lparr>m_text := JStr (replicate 500 (CHR '' '') @ ''hi'')\<rparr>)) 0 0)
       = Inr (lobby, [])"
proof -
  have ty: "m_type ((request ''chat'')\<lparr>m_text := JStr (replicate 500 (CHR '' '') @ ''hi'')\<rparr>) = JStr ''chat''"
    by (simp add: request_def)
  have "step v ''t'' lobby
          (Message 10 (JsonObj ((request ''chat'')\<lparr>m_text := JStr (replicate 500 (CHR '' '') @ ''hi'')\<rparr>)) 0 0)
        = Inr (chat_handler v lobby ''alice''
                 ((request ''chat'')\<lparr>m_text := JStr (replicate 500 (CHR '' '') @ ''hi'')\<rparr>) 0 0)" for v
    by (rule chat_step [OF lobby_alice(1) _ ty]) simp
  then show ?thesis
    by (simp only: padded_text chat_handler_def Let_def if_True simp_thms)
qed

lemma chat_text_of_trimmed: "trim (chat_text_of data) = chat_text_of data"
  by (simp add: chat_text_of_def trim_idem)

lemma kick_no_error: "(c', ErrorMsg e) \<notin> set (snd (kick target es s))"
  by (induction target es s rule: kick.induct) (simp_all add: Let_def sendTo_def)

lemma chat_handler_no_error: "(c', ErrorMsg e) \<notin> set (snd (chat_handler v s nickname data t1 t2))"
  by (cases v)
     (auto simp: chat_handler_def Let_def ban_def unban_def normal_chat_def broadcast_def kick_no_error)

text \<open>
  C8, as the code has it. For a chat message of the administrator that starts
  with a slash and whose first piece is \<open>p0\<close>:
  \<^item> \<^verbatim>\<open>/bro target\<close> removes the ban on the target and broadcasts the notice;
    nothing else in the state changes, so no chat row is stored;
  \<^item> any first piece other than \<^verbatim>\<open>/ban\<close> and \<^verbatim>\<open>/bro\<close> is handled as ordinary
    chat: a row is stored and the text is broadcast;
  \<^item> \<^verbatim>\<open>/ban\<close> or \<^verbatim>\<open>/bro\<close> without a target is ignored by \<^verbatim>\<open>src/server/index.js\<close>
    and handled as ordinary chat by \<^verbatim>\<open>src/unnamed/part_000\<close>;
  \<^item> in every case the handler returns and sends no \<^verbatim>\<open>error\<close> message.
\<close>

theorem admin_commands:
  assumes "clients_get (clients s) c = Some (Some ''admin'')"
    and "m_type data = JStr ''chat''"
    and "startsWith (chat_text_of data) ''/''"
    and "split_ws (chat_text_of data) = p0 # ps"
  shows "(\<forall>target rest. toLowerCase p0 = ''/bro'' \<and> ps = target # rest \<and> target \<noteq> [] \<longrightarrow>
            step v tok s (Message c (JsonObj data) t1 t2)
              = Inr (s\<lparr>bans := (bans s)(target := None)\<rparr>,
                     broadcast s (System (target @ '' is unbanned''))))
    \<and> (toLowerCase p0 \<noteq> ''/ban'' \<and> toLowerCase p0 \<noteq> ''/bro'' \<longrightarrow>
          (\<exists>s' ic. step v tok s (Message c (JsonObj data) t1 t2)
                      = Inr (s', broadcast s' (ChatMsg ''admin'' ic (chat_text_of data) t2))
             \<and> chat s' = chat s @ [\<lparr>chat_nickname = ''admin'', chat_icon = ic,
                                     chat_text = chat_text_of data, chat_ts = t1 div 1000\<rparr>]))
    \<and> ((toLowerCase p0 = ''/ban'' \<or> toLowerCase p0 = ''/bro'') \<and> \<not> has_target (index ps 0) \<longrightarrow>
          (v = IndexJs \<longrightarrow> step v tok s (Message c (JsonObj data) t1 t2) = Inr (s, []))
        \<and> (v = Part000 \<longrightarrow>
             (\<exists>s' ic. step v tok s (Message c (JsonObj data) t1 t2)
                      = Inr (s', broadcast s' (ChatMsg ''admin'' ic (chat_text_of data) t2))
                \<and> chat s' = chat s @ [\<lparr>chat_nickname = ''admin'', chat_icon = ic,
                                        chat_text = chat_text_of data, chat_ts = t1 div 1000\<rparr>])))
    \<and> (\<exists>s' out. step v tok s (Message c (JsonObj data) t1 t2) = Inr (s', out)
          \<and> (\<forall>c' e. (c', ErrorMsg e) \<notin> set out))"
proof -
  have ne: "chat_text_of data \<noteq> []"
    using assms(3) by (auto simp: startsWith_def)
  have st: "step w tok s (Message c (JsonObj data) t1 t2)
              = Inr (chat_handler w s ''admin'' data t1 t2)" for w
    by (rule chat_step [OF assms(1) _ assms(2)]) simp
  have nc: "\<exists>s' ic. Inr (normal_chat s ''admin'' (chat_text_of data) t1 t2)
                      = (Inr (s', broadcast s' (ChatMsg ''admin'' ic (chat_text_of data) t2))
                          :: error + state \<times> send list)
             \<and> chat s' = chat s @ [\<lparr>chat_nickname = ''admin'', chat_icon = ic,
                                     chat_text = chat_text_of data, chat_ts = t1 div 1000\<rparr>]"
    by (simp add: normal_chat_def Let_def)
  have bro: "chat_handler v s ''admin'' data t1 t2
               = (s\<lparr>bans := (bans s)(target := None)\<rparr>, broadcast s (System (target @ '' is unbanned'')))"
    if "toLowerCase p0 = ''/bro''" "ps = target # rest" "target \<noteq> []" for target rest
    using that ne assms(3,4)
    by (cases v)
       (simp_all add: chat_handler_def Let_def chat_text_of_trimmed has_target_def target_str_def
          unban_def broadcast_def)
  have other: "chat_handler v s ''admin'' data t1 t2 = normal_chat s ''admin'' (chat_text_of data) t1 t2"
    if "toLowerCase p0 \<noteq> ''/ban'' \<and> toLowerCase p0 \<noteq> ''/bro''"
    using that ne assms(3,4)
    by (cases v) (simp_all add: chat_handler_def Let_def chat_text_of_trimmed)
  have bare_index: "chat_handler IndexJs s ''admin'' data t1 t2 = (s, [])"
    if "toLowerCase p0 = ''/ban'' \<or> toLowerCase p0 = ''/bro''" "\<not> has_target (index ps 0)"
    using that ne assms(3,4)
    by (auto simp: chat_handler_def Let_def)
  have bare_part: "chat_handler Part000 s ''admin'' data t1 t2
                     = normal_chat s ''admin'' (chat_text_of data) t1 t2"
    if "\<not> has_target (index ps 0)"
    using that ne assms(3,4)
    by (auto simp: chat_handler_def Let_def chat_text_of_trimmed)
  have quiet: "\<exists>s' out. step v tok s (Message c (JsonObj data) t1 t2) = Inr (s', out)
                 \<and> (\<forall>c' e. (c', ErrorMsg e) \<notin> set out)"
    using chat_handler_no_error [of _ _ v s "''admin''" data t1 t2]
    by (simp add: st) (metis prod.collapse)
  show ?thesis
  proof (intro conjI allI impI)
    fix target rest
    assume "toLowerCase p0 = ''/bro'' \<and> ps = target # rest \<and> target \<noteq> []"
    then show "step v tok s (Message c (JsonObj data) t1 t2)
                 = Inr (s\<lparr>bans := (bans s)(target := None)\<rparr>,
                        broadcast s (System (target @ '' is unbanned'')))"
      using bro [of target rest] by (simp add: st)
  next
    assume "toLowerCase p0 \<noteq> ''/ban'' \<and> toLowerCase p0 \<noteq> ''/bro''"
    then show "\<exists>s' ic. step v tok s (Message c (JsonObj data) t1 t2)
                      = Inr (s', broadcast s' (ChatMsg ''admin'' ic (chat_text_of data) t2))
             \<and> chat s' = chat s @ [\<lparr>chat_nickname = ''admin'', chat_icon = ic,
                                     chat_text = chat_text_of data, chat_ts = t1 div 1000\<rparr>]"
      using other nc by (simp add: st)
  next
    assume "(toLowerCase p0 = ''/ban'' \<or> toLowerCase p0 = ''/bro'') \<and> \<not> has_target (index ps 0)"
      and "v = IndexJs"
    then show "step v tok s (Message c (JsonObj data) t1 t2) = Inr (s, [])"
      using bare_index by (simp add: st)
  next
    assume "(toLowerCase p0 = ''/ban'' \<or> toLowerCase p0 = ''/bro'') \<and> \<not> has_target (index ps 0)"
      and "v = Part000"
    then show "\<exists>s' ic. step v tok s (Message c (JsonObj data) t1 t2)
                      = Inr (s', broadcast s' (ChatMsg ''admin'' ic (chat_text_of data) t2))
                \<and> chat s' = chat s @ [\<lparr>chat_nickname = ''admin'', chat_icon = ic,
                                        chat_text = chat_text_of data, chat_ts = t1 div 1000\<rparr>]"
      using bare_part nc by (simp add: st)
  next
    show "\<exists>s' out. step v tok s (Message c (JsonObj data) t1 t2) = Inr (s', out)
          \<and> (\<forall>c' e. (c', ErrorMsg e) \<notin> set out)"
      by (rule quiet)
  qed
qed


lemma lower_commands:
  "toLowerCase ''/bro'' = ''/bro''" "toLowerCase ''/foo'' = ''/foo''" "toLowerCase ''/ban'' = ''/ban''"
  by code_simp+

lemma office_admin:
  "clients_get (clients office) 10 = Some (Some ''admin'')"
  by (simp add: office_def clients_get_def)

lemma command_texts:
  "chat_text_of ((request ''chat'')\<lparr>m_text := JStr ''/bro carol''\<rparr>) = ''/bro carol''"
  "chat_text_of ((request ''chat'')\<lparr>m_text := JStr ''/bro''\<rparr>) = ''/bro''"
  "chat_text_of ((request ''chat'')\<lparr>m_text := JStr ''/foo''\<rparr>) = ''/foo''"
  by (simp_all add: chat_text_of_def request_def or_empty_def slice0_def trim_def is_space_def)

lemma command_parts:
  "split_ws ''/bro carol'' = [''/bro'', ''carol'']"
  "split_ws ''/bro'' = [''/bro'']"
  "split_ws ''/foo'' = [''/foo'']"
  by (simp_all add: split_ws.simps is_space_def)

theorem admin_commands_witness:
  "step IndexJs ''t'' office (Message 10 (JsonObj ((request ''chat'')\<lparr>m_text := JStr ''/bro carol''\<rparr>)) 0 0)
     = Inr (office\<lparr>bans := (bans office)(''carol'' := None)\<rparr>,
            [(10, System ''carol is unbanned''), (11, System ''carol is unbanned'')])
   \<and> step IndexJs ''t'' office (Message 10 (JsonObj ((request ''chat'')\<lparr>m_text := JStr ''/bro''\<rparr>)) 0 0)
     = Inr (office, [])"
proof -
  have ty: "m_type ((request ''chat'')\<lparr>m_text := x\<rparr>) = JStr ''chat''" for x
    by (simp add: request_def)
  have b: "broadcast office m = [(10, m), (11, m)]" for m
    by (simp add: broadcast_def office_def)
  have "startsWith (chat_text_of ((request ''chat'')\<lparr>m_text := JStr ''/bro carol''\<rparr>)) ''/''"
    and "split_ws (chat_text_of ((request ''chat'')\<lparr>m_text := JStr ''/bro carol''\<rparr>)) = ''/bro'' # [''carol'']"
    by (simp_all add: command_texts command_parts startsWith_def)
  from admin_commands [OF office_admin ty this, of IndexJs "''t''" 0 0]
  have one: "step IndexJs ''t'' office (Message 10 (JsonObj ((request ''chat'')\<lparr>m_text := JStr ''/bro carol''\<rparr>)) 0 0)
     = Inr (office\<lparr>bans := (bans office)(''carol'' := None)\<rparr>,
            [(10, System ''carol is unbanned''), (11, System ''carol is unbanned'')])"
    by (simp add: lower_commands b)
  have "startsWith (chat_text_of ((request ''chat'')\<lparr>m_text := JStr ''/bro''\<rparr>)) ''/''"
    and "split_ws (chat_text_of ((request ''chat'')\<lparr>m_text := JStr ''/bro''\<rparr>)) = ''/bro'' # []"
    by (simp_all add: command_texts command_parts startsWith_def)
  from admin_commands [OF office_admin ty this, of IndexJs "''t''" 0 0]
  have two: "step IndexJs ''t'' office (Message 10 (JsonObj ((request ''chat'')\<lparr>m_text := JStr ''/bro''\<rparr>)) 0 0)
     = Inr (office, [])"
    by (simp add: lower_commands has_target_def)
  from one two show ?thesis by simp
qed

text \<open>
  C8 as stated fails: the administrator's \<^verbatim>\<open>/foo\<close> is not ignored; both
  variants store it and broadcast it as chat.
\<close>

theorem admin_commands_counterexample:
  "step IndexJs ''t'' office (Message 10 (JsonObj ((request ''chat'')\<lparr>m_text := JStr ''/foo''\<rparr>)) 7000 7001)
     = Inr (office\<lparr>chat := [\<lparr>chat_nickname = ''admin'', chat_icon = None, chat_text = ''/foo'', chat_ts = 7\<rparr>]\<rparr>,
            [(10, ChatMsg ''admin'' None ''/foo'' 7001), (11, ChatMsg ''admin'' None ''/foo'' 7001)])
   \<and> step Part000 ''t'' office (Message 10 (JsonObj ((request ''chat'')\<lparr>m_text := JStr ''/foo''\<rparr>)) 7000 7001)
     = Inr (office\<lparr>chat := [\<lparr>chat_nickname = ''admin'', chat_icon = None, chat_text = ''/foo'', chat_ts = 7\<rparr>]\<rparr>,
            [(10, ChatMsg ''admin'' None ''/foo'' 7001), (11, ChatMsg ''admin'' None ''/foo'' 7001)])"
proof -
  have ty: "m_type ((request ''chat'')\<lparr>m_text := x\<rparr>) = JStr ''chat''" for x
    by (simp add: request_def)
  have st: "step v ''t'' office (Message 10 (JsonObj ((request ''chat'')\<lparr>m_text := x\<rparr>)) 7000 7001)
              = Inr (chat_handler v office ''admin'' ((request ''chat'')\<lparr>m_text := x\<rparr>) 7000 7001)" for v x
    by (rule chat_step [OF office_admin _ ty]) simp
  have n: "normal_chat office ''admin'' x 7000 7001
             = (office\<lparr>chat := [\<lparr>chat_nickname = ''admin'', chat_icon = None, chat_text = x, chat_ts = 7\<rparr>]\<rparr>,
                [(10, ChatMsg ''admin'' None x 7001), (11, ChatMsg ''admin'' None x 7001)])" for x
    by (simp add: normal_chat_def Let_def office_def new_player_def broadcast_def)
  show ?thesis
    by (simp only: st)
       (simp add: chat_handler_def Let_def command_texts command_parts lower_commands
          startsWith_def has_target_def trim_def is_space_def n)
qed

subsection \<open>Claiming a nickname\<close>

lemma setName_step:
  assumes "m_type data = JStr ''setName''"
  shows "step v tok s (Message c (JsonObj data) t1 t2) = Inr (setName v tok s c data)"
  using assms by (simp add: step_def on_message_def)

lemma inUse_iff: "inUse s n \<longleftrightarrow> (\<exists>c'. (c', Some n) \<in> set (clients s))"
  by (force simp: inUse_def list_ex_iff)

lemma lower_names:
  "toLowerCase ''alice'' = ''alice''" "toLowerCase ''bob'' = ''bob''"
  "toLowerCase ''undefined'' = ''undefined''" "toLowerCase ''admin'' = ''admin''"
  "toLowerCase ''carol'' = ''carol''"
  by code_simp+

lemma trimmed_names:
  "trim ''alice'' = ''alice''" "trim '' bob '' = ''bob''" "trim ''bob'' = ''bob''"
  "trim ''undefined'' = ''undefined''"
  "trim ''admin'' = ''admin''" "trim ''carol'' = ''carol''" "trim [] = []"
  by (simp_all add: trim_def is_space_def)

lemma clients_get_set: "clients_get (clients_set m c n) c = Some n"
  by (induction m) (auto simp: clients_get_def)

text \<open>
  C2, as the code has it. A \<^verbatim>\<open>setName\<close> request from an open connection is
  answered by the first of these that applies, with \<open>n\<close> the requested name
  trimmed and then cut to 32 characters:
  \<^item> \<open>n\<close> empty: reason \<^verbatim>\<open>empty\<close>;
  \<^item> \<open>n\<close> in lower case is \<^verbatim>\<open>admin\<close> and the credential is not the secret:
    reason \<^verbatim>\<open>admin_auth\<close>;
  \<^item> \<open>n\<close> banned: reason \<^verbatim>\<open>banned\<close>;
  \<^item> some connection holds \<open>n\<close>, the requester itself included: reason \<^verbatim>\<open>inuse\<close>;
  \<^item> otherwise a player row with coins 0, tap value 1, automatic income 0,
    taps 0 and no icon is created unless one exists, the session is bound to
    \<open>n\<close>, the requester is told so and the standings are broadcast.
  A rejection leaves the whole state as it was.
\<close>

theorem setName_order:
  assumes "m_type data = JStr ''setName''" and "readyState s c = OPEN"
    and "n = slice0 32 (trim (js_String (case v of IndexJs \<Rightarrow> m_nickname data
                                         | Part000 \<Rightarrow> or_empty (m_nickname data))))"
  shows "step v tok s (Message c (JsonObj data) t1 t2) =
     (if n = [] then Inr (s, [(c, SetNameFail ''empty'')])
      else if toLowerCase n = ''admin'' \<and> m_adminToken data \<noteq> JStr tok
        then Inr (s, [(c, SetNameFail ''admin_auth'')])
      else if bans s n \<noteq> None then Inr (s, [(c, SetNameFail ''banned'')])
      else if \<exists>c'. (c', Some n) \<in> set (clients s) then Inr (s, [(c, SetNameFail ''inuse'')])
      else Inr (s\<lparr>players := (if players s n = None
                               then (players s)(n \<mapsto> \<lparr>coins = 0, tap_value = 1, auto_per_sec = 0,
                                                        taps = 0, icon = None\<rparr>)
                               else players s),
                   clients := clients_set (clients s) c (Some n)\<rparr>,
                (c, SetNameOk n) # map (\<lambda>c'. (c', Ranks))
                                      (filter (\<lambda>c'. readyState s c' = OPEN) (wss_clients s))))"
proof -
  have nn: "setName_nickname v data = n"
    using assms(3) by (cases v) (simp_all add: setName_nickname_def)
  show ?thesis
    using assms(2)
    by (simp add: setName_step [OF assms(1)] setName_def nn Let_def sendTo_def inUse_iff
        broadcastPlayersAndRanks_def broadcast_def new_player_def)
qed

theorem setName_order_witness:
  "step Part000 ''t'' lobby (Message 11 (JsonObj ((request ''setName'')\<lparr>m_nickname := JStr '' bob ''\<rparr>)) 0 0)
     = Inr (lobby\<lparr>players := (players lobby)(''bob'' \<mapsto> \<lparr>coins = 0, tap_value = 1, auto_per_sec = 0,
                                                           taps = 0, icon = None\<rparr>),
                  clients := [(10, Some ''alice''), (11, Some ''bob'')]\<rparr>,
            [(11, SetNameOk ''bob''), (10, Ranks), (11, Ranks)])"
proof -
  let ?d = "(request ''setName'')\<lparr>m_nickname := JStr '' bob ''\<rparr>"
  have ty: "m_type ?d = JStr ''setName''" and op: "readyState lobby 11 = OPEN"
    by (simp_all add: request_def lobby_def)
  have n: "''bob'' = slice0 32 (trim (js_String (case Part000 of IndexJs \<Rightarrow> m_nickname ?d
                                         | Part000 \<Rightarrow> or_empty (m_nickname ?d))))"
    by (simp add: request_def or_empty_def trimmed_names slice0_def)
  show ?thesis
    unfolding setName_order [OF ty op n, of "''t''" 0 0]
    by (simp add: lower_names lobby_def)
qed

text \<open>
  C2 as stated fails on \<^emph>\<open>another\<close>: the connection that plays as alice asks
  for alice again and is refused with \<^verbatim>\<open>inuse\<close>, although no other connection
  holds the name.
\<close>

theorem setName_order_counterexample:
  "step IndexJs ''t'' lobby (Message 10 (JsonObj ((request ''setName'')\<lparr>m_nickname := JStr ''alice''\<rparr>)) 0 0)
     = Inr (lobby, [(10, SetNameFail ''inuse'')])
   \<and> clients lobby = [(10, Some ''alice''), (11, None)]"
  by (simp add: step_def on_message_def request_def setName_def setName_nickname_def slice0_def
      trimmed_names lower_names lobby_def inUse_def sendTo_def Let_def)


text \<open>
  C9, as the code has it. With the same secret, the two variants answer a
  \<^verbatim>\<open>setName\<close> request alike whenever the nickname field is truthy or the empty
  string. They differ when the field is absent: \<^verbatim>\<open>src/unnamed/part_000\<close>
  rejects with reason \<^verbatim>\<open>empty\<close>, while \<^verbatim>\<open>src/server/index.js\<close> binds the
  session to the name \<^verbatim>\<open>undefined\<close> if that name is neither banned nor held.
\<close>

theorem setName_variants:
  assumes "m_type data = JStr ''setName''" and "readyState s c = OPEN"
  shows "(truthy (m_nickname data) \<or> m_nickname data = JStr [] \<longrightarrow>
            step IndexJs tok s (Message c (JsonObj data) t1 t2)
              = step Part000 tok s (Message c (JsonObj data) t1 t2))
    \<and> (m_nickname data = JUndefined \<longrightarrow>
          step Part000 tok s (Message c (JsonObj data) t1 t2) = Inr (s, [(c, SetNameFail ''empty'')])
        \<and> (bans s ''undefined'' = None \<and> \<not> (\<exists>c'. (c', Some ''undefined'') \<in> set (clients s)) \<longrightarrow>
             (\<exists>s' rest. step IndexJs tok s (Message c (JsonObj data) t1 t2)
                           = Inr (s', (c, SetNameOk ''undefined'') # rest)
                \<and> clients_get (clients s') c = Some (Some ''undefined''))))"
proof (intro conjI impI)
  assume "truthy (m_nickname data) \<or> m_nickname data = JStr []"
  then have "setName_nickname IndexJs data = setName_nickname Part000 data"
    by (auto simp: setName_nickname_def or_empty_def)
  then show "step IndexJs tok s (Message c (JsonObj data) t1 t2)
              = step Part000 tok s (Message c (JsonObj data) t1 t2)"
    by (simp add: setName_step [OF assms(1)] setName_def)
next
  assume u: "m_nickname data = JUndefined"
  then have "setName_nickname Part000 data = []"
    by (simp add: setName_nickname_def or_empty_def trimmed_names slice0_def)
  then show "step Part000 tok s (Message c (JsonObj data) t1 t2) = Inr (s, [(c, SetNameFail ''empty'')])"
    using assms(2) by (simp add: setName_step [OF assms(1)] setName_def sendTo_def)
next
  assume u: "m_nickname data = JUndefined"
    and free: "bans s ''undefined'' = None \<and> \<not> (\<exists>c'. (c', Some ''undefined'') \<in> set (clients s))"
  have n: "setName_nickname IndexJs data = ''undefined''"
    using u by (simp add: setName_nickname_def trimmed_names slice0_def)
  have l: "toLowerCase ''undefined'' \<noteq> ''admin''"
    by (simp add: lower_names)
  show "\<exists>s' rest. step IndexJs tok s (Message c (JsonObj data) t1 t2)
                           = Inr (s', (c, SetNameOk ''undefined'') # rest)
                \<and> clients_get (clients s') c = Some (Some ''undefined'')"
    using free assms(2) l
    by (simp add: setName_step [OF assms(1)] setName_def n Let_def sendTo_def inUse_iff clients_get_set)
qed

theorem setName_variants_witness:
  "step Part000 ''t'' lobby (Message 11 (JsonObj (request ''setName'')) 0 0)
     = Inr (lobby, [(11, SetNameFail ''empty'')])
   \<and> (\<exists>s' rest. step IndexJs ''t'' lobby (Message 11 (JsonObj (request ''setName'')) 0 0)
                    = Inr (s', (11, SetNameOk ''undefined'') # rest)
         \<and> clients_get (clients s') 11 = Some (Some ''undefined''))
   \<and> step IndexJs ''t'' lobby (Message 11 (JsonObj ((request ''setName'')\<lparr>m_nickname := JStr ''alice''\<rparr>)) 0 0)
     = step Part000 ''t'' lobby (Message 11 (JsonObj ((request ''setName'')\<lparr>m_nickname := JStr ''alice''\<rparr>)) 0 0)"
proof -
  have ty: "m_type ((request ''setName'')\<lparr>m_nickname := x\<rparr>) = JStr ''setName''"
    and ty0: "m_type (request ''setName'') = JStr ''setName''" for x
    by (simp_all add: request_def)
  have op: "readyState lobby 11 = OPEN" by (simp add: lobby_def)
  have u: "m_nickname (request ''setName'') = JUndefined" by (simp add: request_def)
  have free: "bans lobby ''undefined'' = None \<and> \<not> (\<exists>c'. (c', Some ''undefined'') \<in> set (clients lobby))"
    by (simp add: lobby_def)
  have tr: "truthy (m_nickname ((request ''setName'')\<lparr>m_nickname := JStr ''alice''\<rparr>))"
    by simp
  show ?thesis
    using setName_variants [OF ty0 op, of "''t''" 0 0] u free
      setName_variants [OF ty [of "JStr ''alice''"] op, of "''t''" 0 0] tr
    by blast
qed

text \<open>
  C9 as stated fails on its first half: on a request without a nickname the
  two variants give different results, so they are not equivalent.
\<close>

theorem setName_variants_counterexample:
  "step IndexJs ''t'' lobby (Message 11 (JsonObj (request ''setName'')) 0 0)
     \<noteq> step Part000 ''t'' lobby (Message 11 (JsonObj (request ''setName'')) 0 0)"
  by (simp add: step_def on_message_def request_def setName_def setName_nickname_def slice0_def
      or_empty_def trimmed_names lower_names lobby_def inUse_def sendTo_def Let_def)

subsection \<open>The player invariant\<close>

lemma kick_tables:
  "players (fst (kick target es s)) = players s"
  "shop_items (fst (kick target es s)) = shop_items s"
  by (induction target es s rule: kick.induct) (simp_all add: Let_def ws_close_def)

lemma setName_inv:
  "player_inv s \<Longrightarrow> setName v tok s c data = (s', out) \<Longrightarrow> player_inv s'"
  by (auto simp: setName_def Let_def player_inv_def new_player_def split: if_splits)

lemma sql_add_real_nonneg: "0 \<le> x \<Longrightarrow> 0 \<le> y \<Longrightarrow> 0 \<le> sql_add_real x (column y)"
  by (simp add: sql_add_real_def column_def to_double_nonneg)

lemma tap_inv: "player_inv s \<Longrightarrow> tap s nickname = (s', out) \<Longrightarrow> player_inv s'"
  unfolding tap_def Let_def player_inv_def
  by (fastforce split: option.splits if_splits intro: sql_add_real_nonneg)

lemma js_sub_nonneg: "\<not> a < b \<Longrightarrow> 0 \<le> js_sub a b"
  by (simp add: js_sub_def to_double_nonneg)

lemma js_add_ge1: "1 \<le> x \<Longrightarrow> 0 \<le> y \<Longrightarrow> 1 \<le> js_add (column x) (column y)"
proof -
  assume "1 \<le> x" and "0 \<le> y"
  then have "1 \<le> column x" and "0 \<le> column y"
    by (simp_all add: column_def to_double_ge1 to_double_nonneg)
  then show ?thesis by (simp add: js_add_def to_double_ge1)
qed

lemma buy_inv:
  assumes "player_inv s" and "shop_ok s" and "buy v s c nickname data = Inr (s', out)"
  shows "player_inv s'"
proof (cases "s' = s")
  case True
  with assms(1) show ?thesis by simp
next
  case False
  with assms(3) obtain item p where it: "shop_items s (buy_itemId v data) = Some item"
    and p: "players s nickname = Some p"
    and afford: "\<not> column (coins p) < column (price item)"
    and s': "s' = s\<lparr>players := (players s)(nickname \<mapsto>
        \<lparr>coins = js_sub (column (coins p)) (column (price item)),
         tap_value = (if item_type item = ''tap''
                      then js_add (column (tap_value p)) (column (item_value item))
                      else column (tap_value p)),
         auto_per_sec = (if item_type item = ''auto''
                         then js_add (column (auto_per_sec p)) (column (item_value item))
                         else column (auto_per_sec p)),
         taps = column (taps p), icon = icon p\<rparr>)\<rparr>"
    by (auto simp: buy_def Let_def split: option.splits if_splits)
  from assms(1) p have pv: "1 \<le> tap_value p" by (auto simp: player_inv_def)
  have c: "0 \<le> js_sub (column (coins p)) (column (price item))"
    using afford by (rule js_sub_nonneg)
  have t: "1 \<le> (if item_type item = ''tap''
                  then js_add (column (tap_value p)) (column (item_value item))
                  else column (tap_value p))"
  proof (cases "item_type item = ''tap''")
    case True
    with assms(2) it have "0 \<le> item_value item" by (auto simp: shop_ok_def)
    with pv True show ?thesis by (simp add: js_add_ge1)
  next
    case False
    with pv show ?thesis by (simp add: column_def to_double_ge1)
  qed
  show ?thesis
    using assms(1) c t unfolding player_inv_def s' by auto
qed

lemma chat_handler_tables:
  "players (fst (chat_handler v s nickname data t1 t2)) = players s"
  "shop_items (fst (chat_handler v s nickname data t1 t2)) = shop_items s"
  by (cases v; simp add: chat_handler_def Let_def ban_def unban_def normal_chat_def kick_tables)+

lemma chat_handler_inv:
  "player_inv s \<Longrightarrow> chat_handler v s nickname data t1 t2 = (s', out) \<Longrightarrow> player_inv s'"
  using chat_handler_tables(1) [of v s nickname data t1 t2] by (simp add: player_inv_def)

lemma tick_inv: "player_inv s \<Longrightarrow> tick s = (s', out) \<Longrightarrow> player_inv s'"
  unfolding tick_def Let_def player_inv_def
  by (fastforce split: option.splits if_splits intro: sql_add_real_nonneg)

lemma upload_icon_inv: "player_inv s \<Longrightarrow> player_inv (upload_icon v s nick file stamp)"
  by (auto simp: upload_icon_def Let_def player_inv_def new_player_def column_def
      to_double_nonneg to_double_ge1 split: option.splits if_splits)

lemma on_connection_inv: "player_inv s \<Longrightarrow> on_connection s c = (s', out) \<Longrightarrow> player_inv s'"
  by (auto simp: on_connection_def Let_def player_inv_def)

lemma on_close_inv: "player_inv s \<Longrightarrow> on_close s c = (s', out) \<Longrightarrow> player_inv s'"
  by (auto simp: on_close_def Let_def player_inv_def)

lemma on_message_inv:
  assumes "player_inv s" "shop_ok s" "on_message v tok s c r t1 t2 = Inr (s', out)"
  shows "player_inv s'"
proof (cases r)
  case (JsonObj data)
  show ?thesis
  proof (cases "m_type data = JStr ''setName''")
    case True
    with assms JsonObj show ?thesis
      by (auto simp: on_message_def dest: setName_inv)
  next
    case False
    show ?thesis
      using assms JsonObj False
      by (auto simp: on_message_def split: option.splits if_splits
          dest: tap_inv buy_inv chat_handler_inv)
  qed
qed (use assms in \<open>auto simp: on_message_def\<close>)

lemma step_inv:
  assumes "player_inv s" "shop_ok s" "step v tok s e = Inr (s', out)"
  shows "player_inv s'"
  using assms
  by (cases e)
     (auto simp: step_def dest: on_message_inv on_connection_inv on_close_inv tick_inv
        intro: upload_icon_inv)

lemma setName_shop: "setName v tok s c data = (s', out) \<Longrightarrow> shop_items s' = shop_items s"
  by (auto simp: setName_def Let_def split: if_splits)

lemma chat_handler_shop:
  "chat_handler v s nickname data t1 t2 = (s', out) \<Longrightarrow> shop_items s' = shop_items s"
  using chat_handler_tables(2) [of v s nickname data t1 t2] by simp

lemma on_message_shop:
  "on_message v tok s c r t1 t2 = Inr (s', out) \<Longrightarrow> shop_items s' = shop_items s"
  by (auto simp: on_message_def tap_def buy_def Let_def split: raw.splits option.splits if_splits
      dest: setName_shop chat_handler_shop)

lemma step_shop: "step v tok s e = Inr (s', out) \<Longrightarrow> shop_items s' = shop_items s"
  by (cases e)
     (auto simp: step_def on_connection_def on_close_def tick_def upload_icon_def Let_def
        split: option.splits if_splits dest: on_message_shop)

lemma lobby_inv: "player_inv lobby" "shop_ok lobby"
  by (auto simp: player_inv_def shop_ok_def lobby_def seed_shop_empty SHOP_DEFAULTS_def
      split: if_splits)

lemma lobby_run:
  "\<exists>s' outs. run IndexJs ''t'' lobby
       [Message 10 (JsonObj ((request ''buy'')\<lparr>m_itemId := JStr ''cheapUp''\<rparr>)) 0 0,
        Message 10 (JsonObj (request ''tap'')) 0 0,
        Tick,
        UploadIcon (Some ''carol'') (Some ''.png'') ''17-abc''] = Inr (s', outs)
     \<and> players s' ''alice'' = Some \<lparr>coins = 5, tap_value = 3, auto_per_sec = 0, taps = 7, icon = None\<rparr>
     \<and> players s' ''carol'' = Some \<lparr>coins = 0, tap_value = 1, auto_per_sec = 0, taps = 0,
                                     icon = Some ''/icons/17-abc.png''\<rparr>"
  by (simp add: step_def on_message_def request_def lobby_def clients_get_def buy_def buy_itemId_def
      seed_shop_empty SHOP_DEFAULTS_def sendTo_def broadcastPlayersAndRanks_def broadcast_def
      tap_def tick_def upload_icon_def new_player_def Let_def column_def to_double_safe safe_def
      js_sub_def js_add_def sql_add_real_def sql_add_int_def int64_def)

text \<open>
  C3. From a state in which every player row has non-negative coins and a tap
  value of at least one, and with a catalogue whose tap items have
  non-negative values (the default items have), every run of events (claims,
  taps, purchases, chat, ticks, icon uploads, connects and disconnects) that
  does not end in an uncaught error leads to such a state again. An error is
  raised before anything is written, so this covers every state the server
  reaches.
\<close>

theorem player_invariant:
  assumes "player_inv s" and "shop_ok s" and "run v tok s evs = Inr (s', outs)"
  shows "player_inv s'"
  using assms
proof (induction evs arbitrary: s outs)
  case Nil
  then show ?case by simp
next
  case (Cons e evs)
  from Cons.prems(3) obtain s1 out1 outs1 where st: "step v tok s e = Inr (s1, out1)"
    and rn: "run v tok s1 evs = Inr (s', outs1)"
    by (auto split: sum.splits prod.splits)
  have "player_inv s1" using step_inv [OF Cons.prems(1,2) st] .
  moreover have "shop_ok s1" using step_shop [OF st] Cons.prems(2) by (simp add: shop_ok_def)
  ultimately show ?case using Cons.IH rn by blast
qed


theorem player_invariant_witness:
  "\<exists>s' outs. run IndexJs ''t'' lobby
       [Message 10 (JsonObj ((request ''buy'')\<lparr>m_itemId := JStr ''cheapUp''\<rparr>)) 0 0,
        Message 10 (JsonObj (request ''tap'')) 0 0,
        Tick,
        UploadIcon (Some ''carol'') (Some ''.png'') ''17-abc''] = Inr (s', outs)
     \<and> players s' ''alice'' = Some \<lparr>coins = 5, tap_value = 3, auto_per_sec = 0, taps = 7, icon = None\<rparr>
     \<and> player_inv s'"
proof -
  from lobby_run obtain s' outs where r: "run IndexJs ''t'' lobby
       [Message 10 (JsonObj ((request ''buy'')\<lparr>m_itemId := JStr ''cheapUp''\<rparr>)) 0 0,
        Message 10 (JsonObj (request ''tap'')) 0 0,
        Tick,
        UploadIcon (Some ''carol'') (Some ''.png'') ''17-abc''] = Inr (s', outs)"
    and a: "players s' ''alice'' = Some \<lparr>coins = 5, tap_value = 3, auto_per_sec = 0, taps = 7, icon = None\<rparr>"
    by blast
  from player_invariant [OF lobby_inv r] r a show ?thesis by blast
qed

subsection \<open>Uniqueness of nicknames\<close>

lemma set_names: "set (names m) = {n. \<exists>c. (c, Some n) \<in> set m}"
  by (induction m rule: names.induct) auto

lemma inUse_names: "inUse s n \<longleftrightarrow> n \<in> set (names (clients s))"
  by (force simp: inUse_def list_ex_iff set_names)

lemma fst_clients_set:
  "map fst (clients_set m c x) = (if c \<in> fst ` set m then map fst m else map fst m @ [c])"
  by (induction m) (auto simp: rev_image_eqI)

lemma names_clients_set_subset:
  "set (names (clients_set m c x)) \<subseteq> set (names m) \<union> (case x of None \<Rightarrow> {} | Some n \<Rightarrow> {n})"
proof (induction m)
  case Nil
  then show ?case by (cases x) auto
next
  case (Cons e m)
  obtain c' n' where e: "e = (c', n')" by (cases e)
  show ?case using Cons e by (cases n'; cases x) auto
qed

lemma distinct_names_set_None:
  "distinct (names m) \<Longrightarrow> distinct (names (clients_set m c None))"
proof (induction m rule: names.induct)
  case (3 c' n m)
  then show ?case
    using names_clients_set_subset [of m c None] by auto
qed auto

lemma distinct_names_set_Some:
  "distinct (names m) \<Longrightarrow> n \<notin> set (names m) \<Longrightarrow> distinct (names (clients_set m c (Some n)))"
proof (induction m rule: names.induct)
  case (3 c' n' m)
  then show ?case
    using names_clients_set_subset [of m c "Some n"] by auto
qed auto

lemma names_filter_subset: "set (names (filter P m)) \<subseteq> set (names m)"
  by (auto simp: set_names)

lemma distinct_names_filter: "distinct (names m) \<Longrightarrow> distinct (names (filter P m))"
proof (induction m rule: names.induct)
  case (3 c n m)
  then show ?case using names_filter_subset [of P m] by auto
qed auto

lemma kick_clients: "clients (fst (kick target es s)) = clients s"
  by (induction target es s rule: kick.induct) (simp_all add: Let_def ws_close_def)

lemma chat_handler_clients: "clients (fst (chat_handler v s nickname data t1 t2)) = clients s"
  by (cases v; simp add: chat_handler_def Let_def ban_def unban_def normal_chat_def kick_clients)

lemma setName_sessions:
  "sessions_ok s \<Longrightarrow> setName v tok s c data = (s', out) \<Longrightarrow> sessions_ok s'"
  by (auto simp: setName_def Let_def sessions_ok_def fst_clients_set inUse_names
      distinct_names_set_Some split: if_splits)

lemma on_message_sessions:
  assumes "sessions_ok s" "on_message v tok s c r t1 t2 = Inr (s', out)"
  shows "sessions_ok s'"
proof -
  have "sessions_ok s' \<or> clients s' = clients s"
    using assms chat_handler_clients [of v s _ _ t1 t2]
    by (auto simp: on_message_def tap_def buy_def Let_def split: raw.splits option.splits if_splits
        dest: setName_sessions)
       (metis fst_conv)+
  then show ?thesis using assms(1) by (auto simp: sessions_ok_def)
qed

lemma step_sessions:
  assumes "sessions_ok s" "step v tok s e = Inr (s', out)"
  shows "sessions_ok s'"
proof (cases e)
  case (Message c r t1 t2)
  then show ?thesis using assms by (auto simp: step_def dest: on_message_sessions)
qed (use assms in \<open>auto simp: step_def on_connection_def on_close_def tick_def upload_icon_def Let_def
        sessions_ok_def fst_clients_set distinct_names_set_None clients_delete_def
        distinct_names_filter distinct_map_filter
        split: option.splits if_splits\<close>)

lemma run_sessions:
  "sessions_ok s \<Longrightarrow> run v tok s evs = Inr (s', outs) \<Longrightarrow> sessions_ok s'"
proof (induction evs arbitrary: s outs)
  case (Cons e evs)
  from Cons.prems(2) obtain s1 out1 outs1 where st: "step v tok s e = Inr (s1, out1)"
    and rn: "run v tok s1 evs = Inr (s', outs1)"
    by (auto split: sum.splits prod.splits)
  show ?case using Cons.IH [OF step_sessions [OF Cons.prems(1) st] rn] .
qed simp

lemma run_take:
  "run v tok s evs = Inr (s', outs) \<Longrightarrow> \<exists>sk. run v tok s (take k evs) = Inr (sk, take k outs)"
proof (induction evs arbitrary: s outs k)
  case (Cons e evs)
  from Cons.prems obtain s1 out1 outs1 where st: "step v tok s e = Inr (s1, out1)"
    and rn: "run v tok s1 evs = Inr (s', outs1)" and o: "outs = out1 # outs1"
    by (auto split: sum.splits prod.splits)
  show ?case
  proof (cases k)
    case (Suc k')
    from Cons.IH [OF rn, of k'] obtain sk where "run v tok s1 (take k' evs) = Inr (sk, take k' outs1)"
      by blast
    then show ?thesis using st o Suc by simp
  qed simp
qed simp



lemma setName_ok_simps [simp]:
  "\<not> setName_ok [(c, SetNameFail r)]"
  "setName_ok ((c, SetNameOk n) # rest)"
  by (simp_all add: setName_ok_def)

lemma setName_blocked:
  assumes "m_type d = JStr ''setName''" and "setName_nickname v d = n" and "readyState s c = OPEN"
    and "n = [] \<or> bans s n \<noteq> None \<or> inUse s n"
  shows "\<exists>r. step v tok s (Message c (JsonObj d) t1 t2) = Inr (s, [(c, SetNameFail r)])
           \<and> (wrong_credential tok n (c, d) \<longrightarrow> r = ''admin_auth'')
           \<and> (n \<noteq> [] \<and> bans s n = None \<longrightarrow> refused tok n (c, d) [(c, SetNameFail r)])"
  using assms(2-4)
  by (auto simp: setName_step [OF assms(1)] setName_def Let_def sendTo_def wrong_credential_def
      refused_def toLowerCase_def)

lemma clients_set_mem: "(c, x) \<in> set (clients_set m c x)"
  by (induction m) auto

lemma setName_cases:
  assumes "m_type d = JStr ''setName''" and "setName_nickname v d = n" and "readyState s c = OPEN"
    and "n \<noteq> []" and "bans s n = None" and "\<not> inUse s n"
  shows "step v tok s (Message c (JsonObj d) t1 t2) = Inr (s, [(c, SetNameFail ''admin_auth'')])
           \<and> wrong_credential tok n (c, d)
       \<or> (\<exists>s' rest. step v tok s (Message c (JsonObj d) t1 t2) = Inr (s', (c, SetNameOk n) # rest)
             \<and> \<not> wrong_credential tok n (c, d)
             \<and> inUse s' n \<and> bans s' n = None \<and> readyState s' = readyState s)"
proof -
  have "inUse (s'\<lparr>clients := clients_set (clients s') c (Some n)\<rparr>) n" for s'
    using clients_set_mem [of c "Some n" "clients s'"] by (force simp: inUse_def list_ex_iff)
  then show ?thesis
    using assms(2-6)
    by (auto simp: setName_step [OF assms(1)] setName_def Let_def sendTo_def wrong_credential_def)
qed

text \<open>What the handler answers while the name is held, whatever came before.\<close>

lemma setName_held:
  assumes "m_type d = JStr ''setName''" and "setName_nickname v d = n" and "readyState s c = OPEN"
    and "n \<noteq> []" and "inUse s n"
  shows "step v tok s (Message c (JsonObj d) t1 t2)
           = Inr (s, [(c, SetNameFail
                (if toLowerCase n = ''admin'' \<and> m_adminToken d \<noteq> JStr tok then ''admin_auth''
                 else if bans s n \<noteq> None then ''banned'' else ''inuse''))])"
  using assms(2-5)
  by (auto simp: setName_step [OF assms(1)] setName_def Let_def sendTo_def)

lemma run_Cons_Inr:
  "step v tok s e = Inr (s1, out) \<Longrightarrow> run v tok s1 es = Inr (s', outs)
     \<Longrightarrow> run v tok s (e # es) = Inr (s', out # outs)"
  by simp

lemma run_blocked:
  assumes "\<forall>req \<in> set reqs. m_type (snd req) = JStr ''setName'' \<and> setName_nickname v (snd req) = n
              \<and> readyState s (fst req) = OPEN"
    and "n = [] \<or> bans s n \<noteq> None \<or> inUse s n"
  shows "\<exists>outs. run v tok s (claims t1 t2 reqs) = Inr (s, outs)
     \<and> length outs = length reqs
     \<and> (\<forall>j<length reqs. \<not> setName_ok (outs ! j))
     \<and> (\<forall>j<length reqs. wrong_credential tok n (reqs ! j)
            \<longrightarrow> outs ! j = [(fst (reqs ! j), SetNameFail ''admin_auth'')])
     \<and> (n \<noteq> [] \<and> bans s n = None \<longrightarrow> (\<forall>j<length reqs. refused tok n (reqs ! j) (outs ! j)))"
  using assms(1)
proof (induction reqs)
  case Nil
  then show ?case by (simp add: claims_def)
next
  case (Cons req reqs)
  obtain c d where req: "req = (c, d)" by (cases req)
  from Cons.prems req have h: "m_type d = JStr ''setName''" "setName_nickname v d = n" "readyState s c = OPEN"
    by auto
  from setName_blocked [OF h assms(2), of tok t1 t2] obtain r
    where st: "step v tok s (Message c (JsonObj d) t1 t2) = Inr (s, [(c, SetNameFail r)])"
      and w: "wrong_credential tok n (c, d) \<longrightarrow> r = ''admin_auth''"
      and r: "n \<noteq> [] \<and> bans s n = None \<longrightarrow> refused tok n (c, d) [(c, SetNameFail r)]"
    by blast
  from Cons.IH Cons.prems obtain outs where
    rn: "run v tok s (claims t1 t2 reqs) = Inr (s, outs)" and len: "length outs = length reqs"
    and no: "\<forall>j<length reqs. \<not> setName_ok (outs ! j)"
    and au: "\<forall>j<length reqs. wrong_credential tok n (reqs ! j)
            \<longrightarrow> outs ! j = [(fst (reqs ! j), SetNameFail ''admin_auth'')]"
    and rf: "n \<noteq> [] \<and> bans s n = None \<longrightarrow> (\<forall>j<length reqs. refused tok n (reqs ! j) (outs ! j))"
    by auto
  let ?o = "[(c, SetNameFail r)]"
  have "run v tok s (claims t1 t2 (req # reqs)) = Inr (s, ?o # outs)"
    using run_Cons_Inr [OF st rn] by (simp add: claims_def req)
  moreover have "\<forall>j<length (req # reqs). \<not> setName_ok ((?o # outs) ! j)"
    using no by (auto simp: nth_Cons split: nat.splits)
  moreover have "\<forall>j<length (req # reqs). wrong_credential tok n ((req # reqs) ! j)
            \<longrightarrow> (?o # outs) ! j = [(fst ((req # reqs) ! j), SetNameFail ''admin_auth'')]"
    using au w by (auto simp: nth_Cons req split: nat.splits)
  moreover have "n \<noteq> [] \<and> bans s n = None \<longrightarrow>
      (\<forall>j<length (req # reqs). refused tok n ((req # reqs) ! j) ((?o # outs) ! j))"
    using rf r by (auto simp: nth_Cons req split: nat.splits)
  ultimately show ?case using len by auto
qed

lemma filter_none: "\<forall>j<length xs. \<not> P (xs ! j) \<Longrightarrow> filter P xs = []"
  by (auto simp: filter_empty_conv in_set_conv_nth)

lemma run_claims:
  assumes "\<forall>req \<in> set reqs. m_type (snd req) = JStr ''setName'' \<and> setName_nickname v (snd req) = n
              \<and> readyState s (fst req) = OPEN"
  shows "\<exists>s' outs. run v tok s (claims t1 t2 reqs) = Inr (s', outs)
     \<and> length outs = length reqs
     \<and> length (filter setName_ok outs) \<le> 1
     \<and> (\<forall>j<length reqs. wrong_credential tok n (reqs ! j)
            \<longrightarrow> outs ! j = [(fst (reqs ! j), SetNameFail ''admin_auth'')])
     \<and> ((\<exists>i<length reqs. setName_ok (outs ! i)) \<longrightarrow>
          (\<forall>j<length reqs. setName_ok (outs ! j) \<or> refused tok n (reqs ! j) (outs ! j)))"
  using assms
proof (induction reqs arbitrary: s)
  case Nil
  then show ?case by (simp add: claims_def)
next
  case (Cons req reqs)
  show ?case
  proof (cases "n = [] \<or> bans s n \<noteq> None \<or> inUse s n")
    case True
    from run_blocked [OF Cons.prems True, of tok t1 t2] obtain outs where
      rn: "run v tok s (claims t1 t2 (req # reqs)) = Inr (s, outs)"
      and len: "length outs = length (req # reqs)"
      and no: "\<forall>j<length (req # reqs). \<not> setName_ok (outs ! j)"
      and au: "\<forall>j<length (req # reqs). wrong_credential tok n ((req # reqs) ! j)
            \<longrightarrow> outs ! j = [(fst ((req # reqs) ! j), SetNameFail ''admin_auth'')]"
      by blast
    have "filter setName_ok outs = []" using no len by (intro filter_none) simp
    then show ?thesis using rn len no au by auto
  next
    case False
    obtain c d where req: "req = (c, d)" by (cases req)
    from Cons.prems req have h: "m_type d = JStr ''setName''" "setName_nickname v d = n"
      "readyState s c = OPEN"
      by auto
    from False have f: "n \<noteq> []" "bans s n = None" "\<not> inUse s n" by auto
    from setName_cases [OF h f, of tok t1 t2]
    consider (auth) "step v tok s (Message c (JsonObj d) t1 t2) = Inr (s, [(c, SetNameFail ''admin_auth'')])"
        "wrong_credential tok n (c, d)"
      | (ok) s1 rest where "step v tok s (Message c (JsonObj d) t1 t2) = Inr (s1, (c, SetNameOk n) # rest)"
        "\<not> wrong_credential tok n (c, d)"
        "inUse s1 n" "bans s1 n = None" "readyState s1 = readyState s"
      by blast
    then show ?thesis
    proof cases
      case auth
      from Cons.IH [of s] Cons.prems obtain s' outs where
        rn: "run v tok s (claims t1 t2 reqs) = Inr (s', outs)" and len: "length outs = length reqs"
        and one: "length (filter setName_ok outs) \<le> 1"
        and au: "\<forall>j<length reqs. wrong_credential tok n (reqs ! j)
            \<longrightarrow> outs ! j = [(fst (reqs ! j), SetNameFail ''admin_auth'')]"
        and rf: "(\<exists>i<length reqs. setName_ok (outs ! i)) \<longrightarrow>
                   (\<forall>j<length reqs. setName_ok (outs ! j) \<or> refused tok n (reqs ! j) (outs ! j))"
        by auto
      let ?o = "[(c, SetNameFail ''admin_auth'')]"
      have r: "run v tok s (claims t1 t2 (req # reqs)) = Inr (s', ?o # outs)"
        using run_Cons_Inr [OF auth(1) rn] by (simp add: claims_def req)
      have hd: "refused tok n req ?o"
        using auth(2) by (simp add: refused_def req)
      have au': "\<forall>j<length (req # reqs). wrong_credential tok n ((req # reqs) ! j)
            \<longrightarrow> (?o # outs) ! j = [(fst ((req # reqs) ! j), SetNameFail ''admin_auth'')]"
        using au by (auto simp: nth_Cons req split: nat.splits)
      have "(\<exists>i<length (req # reqs). setName_ok ((?o # outs) ! i)) \<longrightarrow>
              (\<forall>j<length (req # reqs). setName_ok ((?o # outs) ! j)
                    \<or> refused tok n ((req # reqs) ! j) ((?o # outs) ! j))"
      proof
        assume "\<exists>i<length (req # reqs). setName_ok ((?o # outs) ! i)"
        then obtain i where i: "i < length (req # reqs)" "setName_ok ((?o # outs) ! i)"
          by blast
        then have "i \<noteq> 0" by (auto intro: ccontr)
        then obtain i' where "i = Suc i'" by (cases i) auto
        with i have "\<exists>i<length reqs. setName_ok (outs ! i)"
          by auto
        with rf have "\<forall>j<length reqs. setName_ok (outs ! j) \<or> refused tok n (reqs ! j) (outs ! j)"
          by blast
        with hd show "\<forall>j<length (req # reqs). setName_ok ((?o # outs) ! j)
                    \<or> refused tok n ((req # reqs) ! j) ((?o # outs) ! j)"
          by (auto simp: nth_Cons split: nat.splits)
      qed
      then show ?thesis using r len one au' by auto
    next
      case ok
      have p1: "\<forall>req \<in> set reqs. m_type (snd req) = JStr ''setName'' \<and> setName_nickname v (snd req) = n
              \<and> readyState s1 (fst req) = OPEN"
        using Cons.prems ok(5) by auto
      have b1: "n = [] \<or> bans s1 n \<noteq> None \<or> inUse s1 n" using ok(3) by simp
      from run_blocked [OF p1 b1, of tok t1 t2] f(1) ok(4) obtain outs where
        rn: "run v tok s1 (claims t1 t2 reqs) = Inr (s1, outs)" and len: "length outs = length reqs"
        and no: "\<forall>j<length reqs. \<not> setName_ok (outs ! j)"
        and au: "\<forall>j<length reqs. wrong_credential tok n (reqs ! j)
            \<longrightarrow> outs ! j = [(fst (reqs ! j), SetNameFail ''admin_auth'')]"
        and rf: "\<forall>j<length reqs. refused tok n (reqs ! j) (outs ! j)"
        by auto
      let ?o = "(c, SetNameOk n) # rest"
      have r: "run v tok s (claims t1 t2 (req # reqs)) = Inr (s1, ?o # outs)"
        using run_Cons_Inr [OF ok(1) rn] by (simp add: claims_def req)
      have "filter setName_ok outs = []" using no len by (intro filter_none) simp
      then have one: "length (filter setName_ok (?o # outs)) \<le> 1" by simp
      have au': "\<forall>j<length (req # reqs). wrong_credential tok n ((req # reqs) ! j)
            \<longrightarrow> (?o # outs) ! j = [(fst ((req # reqs) ! j), SetNameFail ''admin_auth'')]"
        using au ok(2) by (auto simp: nth_Cons req split: nat.splits)
      have "\<forall>j<length (req # reqs). setName_ok ((?o # outs) ! j)
                    \<or> refused tok n ((req # reqs) ! j) ((?o # outs) ! j)"
        using rf by (auto simp: nth_Cons split: nat.splits)
      then show ?thesis using r len one au' by auto
    qed
  qed
qed

lemma lobby_sessions: "sessions_ok lobby"
  by (simp add: sessions_ok_def lobby_def)

lemma bob_claims:
  "run Part000 ''t'' lobby
     (claims 0 0 [(11, (request ''setName'')\<lparr>m_nickname := JStr ''bob''\<rparr>),
                  (10, (request ''setName'')\<lparr>m_nickname := JStr '' bob ''\<rparr>),
                  (11, (request ''setName'')\<lparr>m_nickname := JStr ''bob''\<rparr>)])
     = Inr (lobby\<lparr>players := (players lobby)(''bob'' \<mapsto> new_player None),
                  clients := [(10, Some ''alice''), (11, Some ''bob'')]\<rparr>,
            [[(11, SetNameOk ''bob''), (10, Ranks), (11, Ranks)],
             [(10, SetNameFail ''inuse'')],
             [(11, SetNameFail ''inuse'')]])"
  by (simp add: claims_def step_def on_message_def request_def setName_def
      setName_nickname_def or_empty_def slice0_def trimmed_names lower_names lobby_def inUse_def
      sendTo_def broadcastPlayersAndRanks_def broadcast_def Let_def)

text \<open>
  C1, as the code has it. From a state whose sessions hold no nickname twice,
  take any sequence of \<^verbatim>\<open>setName\<close> requests from open connections that all ask
  for the same name \<open>n\<close> and are handled one after the other with no other
  event in between. The run returns and at most one request is granted. Every
  request that asks for the administrator's name with a wrong credential is
  answered \<^verbatim>\<open>admin_auth\<close>; if a request is granted, every other request is
  answered \<^verbatim>\<open>inuse\<close>. After every prefix of the sequence no nickname is held
  by two connections. Whatever events came before: a request for a name that
  some connection holds at that moment changes nothing and is answered with
  the first of \<^verbatim>\<open>admin_auth\<close> (wrong credential), \<^verbatim>\<open>banned\<close> (name banned since)
  and \<^verbatim>\<open>inuse\<close> that applies.
\<close>

theorem setName_unique:
  assumes "sessions_ok s"
    and "\<forall>req \<in> set reqs. m_type (snd req) = JStr ''setName'' \<and> setName_nickname v (snd req) = n
            \<and> readyState s (fst req) = OPEN"
  shows "(\<exists>s' outs. run v tok s (claims t1 t2 reqs) = Inr (s', outs)
     \<and> length outs = length reqs
     \<and> length (filter setName_ok outs) \<le> 1
     \<and> (\<forall>j<length reqs. toLowerCase n = ''admin'' \<and> m_adminToken (snd (reqs ! j)) \<noteq> JStr tok
            \<longrightarrow> outs ! j = [(fst (reqs ! j), SetNameFail ''admin_auth'')])
     \<and> ((\<exists>i<length reqs. setName_ok (outs ! i)) \<longrightarrow>
          (\<forall>j<length reqs. \<not> setName_ok (outs ! j)
              \<and> \<not> (toLowerCase n = ''admin'' \<and> m_adminToken (snd (reqs ! j)) \<noteq> JStr tok)
              \<longrightarrow> outs ! j = [(fst (reqs ! j), SetNameFail ''inuse'')]))
     \<and> (\<forall>k\<le>length reqs. \<exists>sk outsk. run v tok s (take k (claims t1 t2 reqs)) = Inr (sk, outsk)
            \<and> sessions_ok sk))
   \<and> (\<forall>s0 c d. m_type d = JStr ''setName'' \<and> setName_nickname v d = n \<and> n \<noteq> []
          \<and> readyState s0 c = OPEN \<and> inUse s0 n
        \<longrightarrow> step v tok s0 (Message c (JsonObj d) t1 t2)
              = Inr (s0, [(c, SetNameFail
                   (if toLowerCase n = ''admin'' \<and> m_adminToken d \<noteq> JStr tok then ''admin_auth''
                    else if bans s0 n \<noteq> None then ''banned'' else ''inuse''))]))"
proof (rule conjI)
  from run_claims [OF assms(2), of tok t1 t2] obtain s' outs where
    rn: "run v tok s (claims t1 t2 reqs) = Inr (s', outs)" and len: "length outs = length reqs"
    and one: "length (filter setName_ok outs) \<le> 1"
    and au: "\<forall>j<length reqs. wrong_credential tok n (reqs ! j)
            \<longrightarrow> outs ! j = [(fst (reqs ! j), SetNameFail ''admin_auth'')]"
    and rf: "(\<exists>i<length reqs. setName_ok (outs ! i)) \<longrightarrow>
               (\<forall>j<length reqs. setName_ok (outs ! j) \<or> refused tok n (reqs ! j) (outs ! j))"
    by blast
  have pre: "\<exists>sk outsk. run v tok s (take k (claims t1 t2 reqs)) = Inr (sk, outsk) \<and> sessions_ok sk" for k
  proof -
    from run_take [OF rn, of k] obtain sk where
      "run v tok s (take k (claims t1 t2 reqs)) = Inr (sk, take k outs)" by blast
    with run_sessions [OF assms(1) this] show ?thesis by blast
  qed
  have rf': "(\<exists>i<length reqs. setName_ok (outs ! i)) \<longrightarrow>
          (\<forall>j<length reqs. \<not> setName_ok (outs ! j)
              \<and> \<not> (toLowerCase n = ''admin'' \<and> m_adminToken (snd (reqs ! j)) \<noteq> JStr tok)
              \<longrightarrow> outs ! j = [(fst (reqs ! j), SetNameFail ''inuse'')])"
    using rf unfolding refused_def wrong_credential_def by auto
  show "\<exists>s' outs. run v tok s (claims t1 t2 reqs) = Inr (s', outs)
     \<and> length outs = length reqs
     \<and> length (filter setName_ok outs) \<le> 1
     \<and> (\<forall>j<length reqs. toLowerCase n = ''admin'' \<and> m_adminToken (snd (reqs ! j)) \<noteq> JStr tok
            \<longrightarrow> outs ! j = [(fst (reqs ! j), SetNameFail ''admin_auth'')])
     \<and> ((\<exists>i<length reqs. setName_ok (outs ! i)) \<longrightarrow>
          (\<forall>j<length reqs. \<not> setName_ok (outs ! j)
              \<and> \<not> (toLowerCase n = ''admin'' \<and> m_adminToken (snd (reqs ! j)) \<noteq> JStr tok)
              \<longrightarrow> outs ! j = [(fst (reqs ! j), SetNameFail ''inuse'')]))
     \<and> (\<forall>k\<le>length reqs. \<exists>sk outsk. run v tok s (take k (claims t1 t2 reqs)) = Inr (sk, outsk)
            \<and> sessions_ok sk)"
    using rn len one au [unfolded wrong_credential_def] rf' pre by blast
next
  show "\<forall>s0 c d. m_type d = JStr ''setName'' \<and> setName_nickname v d = n \<and> n \<noteq> []
          \<and> readyState s0 c = OPEN \<and> inUse s0 n
        \<longrightarrow> step v tok s0 (Message c (JsonObj d) t1 t2)
              = Inr (s0, [(c, SetNameFail
                   (if toLowerCase n = ''admin'' \<and> m_adminToken d \<noteq> JStr tok then ''admin_auth''
                    else if bans s0 n \<noteq> None then ''banned'' else ''inuse''))])"
    using setName_held [of _ v n _ _ tok t1 t2] by blast
qed

theorem setName_unique_witness:
  "\<exists>s' outs. run Part000 ''t'' lobby
       (claims 0 0 [(11, (request ''setName'')\<lparr>m_nickname := JStr ''bob''\<rparr>),
                    (10, (request ''setName'')\<lparr>m_nickname := JStr '' bob ''\<rparr>),
                    (11, (request ''setName'')\<lparr>m_nickname := JStr ''bob''\<rparr>)]) = Inr (s', outs)
     \<and> outs = [[(11, SetNameOk ''bob''), (10, Ranks), (11, Ranks)],
               [(10, SetNameFail ''inuse'')], [(11, SetNameFail ''inuse'')]]
     \<and> length (filter setName_ok outs) \<le> 1
     \<and> sessions_ok s'"
proof -
  let ?reqs = "[(11::ws, (request ''setName'')\<lparr>m_nickname := JStr ''bob''\<rparr>),
                (10, (request ''setName'')\<lparr>m_nickname := JStr '' bob ''\<rparr>),
                (11, (request ''setName'')\<lparr>m_nickname := JStr ''bob''\<rparr>)]"
  have rq: "\<forall>req \<in> set ?reqs. m_type (snd req) = JStr ''setName''
              \<and> setName_nickname Part000 (snd req) = ''bob'' \<and> readyState lobby (fst req) = OPEN"
    by (simp add: request_def setName_nickname_def or_empty_def slice0_def trimmed_names lobby_def)
  from setName_unique [OF lobby_sessions rq, of "''t''" 0 0, THEN conjunct1] obtain s' outs where
    rn: "run Part000 ''t'' lobby (claims 0 0 ?reqs) = Inr (s', outs)"
    and one: "length (filter setName_ok outs) \<le> 1"
    and pre: "\<forall>k\<le>length ?reqs. \<exists>sk outsk. run Part000 ''t'' lobby (take k (claims 0 0 ?reqs)) = Inr (sk, outsk)
            \<and> sessions_ok sk"
    by blast
  from pre [rule_format, of 3] rn have "sessions_ok s'"
    by (simp add: claims_def)
  with rn one bob_claims show ?thesis by simp
qed

text \<open>
  C1 as stated fails twice over, both times on a freshly started server with
  two connections. First, both ask for \<^verbatim>\<open>admin\<close>, one with the secret and one
  without: the one is granted and the other is answered \<^verbatim>\<open>admin_auth\<close>, not
  \<^verbatim>\<open>inuse\<close>. Second, one connection is granted \<^verbatim>\<open>bob\<close>, moves on to \<^verbatim>\<open>carol\<close>
  and stays connected: the other connection's request for \<^verbatim>\<open>bob\<close> is then
  granted as well.
\<close>

theorem setName_unique_counterexample:
  "run IndexJs ''t'' fresh
     (Connection 10 # Connection 11
        # claims 0 0 [(10, (request ''setName'')\<lparr>m_nickname := JStr ''admin'', m_adminToken := JStr ''t''\<rparr>),
                      (11, (request ''setName'')\<lparr>m_nickname := JStr ''admin'', m_adminToken := JStr ''x''\<rparr>)])
     = Inr (fresh\<lparr>players := (players fresh)(''admin'' \<mapsto> new_player None),
                    clients := [(10, Some ''admin''), (11, None)], wss_clients := [10, 11],
                    readyState := (readyState fresh)(10 := OPEN, 11 := OPEN)\<rparr>,
            [[(10, Init [])], [(11, Init [])],
             [(10, SetNameOk ''admin''), (10, Ranks), (11, Ranks)],
             [(11, SetNameFail ''admin_auth'')]])
   \<and> run IndexJs ''t'' fresh
     (Connection 10 # Connection 11
        # claims 0 0 [(10, (request ''setName'')\<lparr>m_nickname := JStr ''bob''\<rparr>),
                      (10, (request ''setName'')\<lparr>m_nickname := JStr ''carol''\<rparr>),
                      (11, (request ''setName'')\<lparr>m_nickname := JStr ''bob''\<rparr>)])
     = Inr (fresh\<lparr>players := (players fresh)(''bob'' \<mapsto> new_player None, ''carol'' \<mapsto> new_player None),
                    clients := [(10, Some ''carol''), (11, Some ''bob'')], wss_clients := [10, 11],
                    readyState := (readyState fresh)(10 := OPEN, 11 := OPEN)\<rparr>,
            [[(10, Init [])], [(11, Init [])],
             [(10, SetNameOk ''bob''), (10, Ranks), (11, Ranks)],
             [(10, SetNameOk ''carol''), (10, Ranks), (11, Ranks)],
             [(11, SetNameOk ''bob''), (10, Ranks), (11, Ranks)]])"
  by (simp add: claims_def step_def on_connection_def on_message_def request_def setName_def
      setName_nickname_def slice0_def trimmed_names lower_names fresh_def inUse_def sendTo_def
      recentChats_def broadcastPlayersAndRanks_def broadcast_def Let_def)

end
